theory Spec2Isabelle
  imports Complex_Main
begin

section \<open>AutoBatchTask: submission, monitoring and enforcement of batch jobs\<close>

text \<open>
  A shallow embedding of \<^verbatim>\<open>production/luigihacks/autobatch.py\<close>. The task talks to
  the outside world (the clock, the shell, the batch service, the workload's
  \<^verbatim>\<open>combine\<close>) only through calls; every such call is recorded as an event, the
  history of events so far is the state that is passed along, and what the outside world
  answers is a function of that history. A raised exception is the outcome \<open>Raised\<close>,
  carrying the history up to the raise.

  The readings of the clock and the deadline are rationals. The arithmetic of the
  failure-rate breaker is that of Python floats, IEEE doubles rounded to the nearest,
  modelled below.
\<close>

subsection \<open>Data\<close>

type_synonym job_id = string

text \<open>
  The values a descriptor holds (\<^verbatim>\<open>None\<close>, booleans, integers and strings; other values
  are not modelled); a descriptor is a \<^verbatim>\<open>dict\<close>, in insertion order.
\<close>

datatype pyval = PyNone | PyBool bool | PyInt int | PyStr string

type_synonym job_params = "(string \<times> pyval) list"

text \<open>
  The exceptions. \<open>StatusQueryError\<close> and \<open>SubmissionError\<close> stand for what the batch
  client raises when a call to the service fails; the client is not part of the sources.
\<close>

datatype error =
    BatchJobException string
  | CalledProcessError
  | IndexError
  | KeyError string
  | ZeroDivisionError
  | StatusQueryError string
  | SubmissionError string

text \<open>What an external call does: it raises, or it returns a value.\<close>

datatype 'a reply = Raises error | Replies 'a

record submission =
  jobDefinition :: string
  jobName :: string
  jobQueue :: string
  attemptDurationSeconds :: int
  environment :: "(string \<times> string) list"
  memory_override :: int
  vcpus_override :: int

datatype event =
    Now
  | CheckOutput string
  | SubmitJob submission
  | GetJobStatus job_id
  | TerminateJob job_id string
  | HardTerminate "job_id list" string
  | Sleep int
  | Combine "job_params list"

type_synonym world = "event list"

datatype 'a outcome = Raised error world | Returned 'a world

fun trace_of :: "'a outcome \<Rightarrow> world" where
  "trace_of (Raised e w) = w"
| "trace_of (Returned x w) = w"

text \<open>The outside world: each answer depends on the calls made so far.\<close>

record backend =
  time_at :: "world \<Rightarrow> rat"
  check_output :: "world \<Rightarrow> string \<Rightarrow> string reply"
  submit_job :: "world \<Rightarrow> submission \<Rightarrow> job_id reply"
  get_job_status :: "world \<Rightarrow> job_id \<Rightarrow> string reply"

text \<open>The parameters of the task, and \<^verbatim>\<open>int(_config["timeout"])\<close> of the worker section.\<close>

record task =
  batchable :: string
  job_def :: string
  job_name :: string
  job_queue :: string
  region_name :: string
  env_files :: "string list"
  vcpus :: int
  memory :: int
  max_runs :: "int option"
  timeout :: int
  poll_time :: int
  success_rate :: rat
  test :: bool
  config_timeout :: int

subsection \<open>Strings\<close>

fun str_nat :: "nat \<Rightarrow> string" where
  "str_nat n =
     (if n < 10 then [''0123456789'' ! n]
      else str_nat (n div 10) @ [''0123456789'' ! (n mod 10)])"

declare str_nat.simps [simp del]

definition str_int :: "int \<Rightarrow> string" where
  "str_int i = (if i < 0 then CHR ''-'' # str_nat (nat (- i)) else str_nat (nat i))"

fun str_py :: "pyval \<Rightarrow> string" where
  "str_py PyNone = ''None''"
| "str_py (PyBool b) = (if b then ''True'' else ''False'')"
| "str_py (PyInt i) = str_int i"
| "str_py (PyStr s) = s"

fun truthy :: "pyval \<Rightarrow> bool" where
  "truthy PyNone = False"
| "truthy (PyBool b) = b"
| "truthy (PyInt i) = (i \<noteq> 0)"
| "truthy (PyStr s) = (s \<noteq> [])"

fun join_str :: "string \<Rightarrow> string list \<Rightarrow> string" where
  "join_str sep [] = []"
| "join_str sep [s] = s"
| "join_str sep (s # t # ss) = s @ sep @ join_str sep (t # ss)"

fun split_newline :: "string \<Rightarrow> string list" where
  "split_newline [] = [[]]"
| "split_newline (c # cs) =
     (if c = CHR 0x0A then [] # split_newline cs
      else (case split_newline cs of
              [] \<Rightarrow> [[c]]
            | l # ls \<Rightarrow> (c # l) # ls))"

subsection \<open>Python floats\<close>

text \<open>
  A finite float is modelled by its value, a rational number. The result of an operation
  is the exact result rounded to the nearest double, ties to the even significand:
  \<open>float_round\<close>, with a significand of 53 bits and exponents down to that of the
  subnormal numbers. \<open>bit_length\<close> is the number of binary digits of a positive
  integer, and \<open>ilog2 x\<close> the exponent \<open>e\<close> with \<open>2 ^ e \<le> x < 2 ^ (e + 1)\<close>, for positive
  \<open>x\<close>. Infinities and not-a-number are not modelled: the operands of the breaker are
  counts and a fraction.
\<close>

definition pow2 :: "int \<Rightarrow> rat" where
  "pow2 e = (if 0 \<le> e then 2 ^ nat e else 1 / 2 ^ nat (- e))"

function bit_length :: "int \<Rightarrow> int" where
  "bit_length n = (if n \<le> 0 then 0 else 1 + bit_length (n div 2))"
  by pat_completeness auto
termination
  by (relation "measure nat") auto

declare bit_length.simps [simp del]

definition ilog2 :: "rat \<Rightarrow> int" where
  "ilog2 x = (case quotient_of x of (p, q) \<Rightarrow>
     (let d = bit_length p - bit_length q
      in if pow2 d \<le> x then d else d - 1))"

definition round_half_even :: "rat \<Rightarrow> int" where
  "round_half_even m =
     (let f = \<lfloor>m\<rfloor>; r = m - of_int f
      in if r < 1 / 2 then f else if 1 / 2 < r then f + 1 else if even f then f else f + 1)"

definition float_round :: "rat \<Rightarrow> rat" where
  "float_round x =
     (if x = 0 then 0
      else (let q = max (ilog2 \<bar>x\<bar> - 52) (- 1074)
            in sgn x * of_int (round_half_even (\<bar>x\<bar> / pow2 q)) * pow2 q))"

text \<open>
  \<^verbatim>\<open>a / b\<close> of two integers, \<open>b\<close> not zero, is the float nearest to the quotient;
  \<^verbatim>\<open>x - y\<close> and \<^verbatim>\<open>x * y\<close> of floats (an integer operand such as \<open>1\<close> or \<open>100\<close> is
  converted first, exactly).
\<close>

definition int_truediv :: "int \<Rightarrow> int \<Rightarrow> rat" where
  "int_truediv a b = float_round (of_int a / of_int b)"

definition float_sub :: "rat \<Rightarrow> rat \<Rightarrow> rat" where
  "float_sub x y = float_round (x - y)"

definition float_mul :: "rat \<Rightarrow> rat \<Rightarrow> rat" where
  "float_mul x y = float_round (x * y)"

text \<open>\<^verbatim>\<open>int(x)\<close> of a float truncates towards zero.\<close>

definition py_int :: "rat \<Rightarrow> int" where
  "py_int x = (if 0 \<le> x then \<lfloor>x\<rfloor> else \<lceil>x\<rceil>)"

subsection \<open>The statuses the monitor tells apart\<close>

definition SUCCEEDED :: string where
  "SUCCEEDED = ''SUCCEEDED''"

definition FAILED :: string where
  "FAILED = ''FAILED''"

definition RUNNING :: string where
  "RUNNING = ''RUNNING''"

subsection \<open>The tally: a \<^verbatim>\<open>defaultdict(int)\<close>\<close>

type_synonym stats = "(string \<times> nat) list"

fun stats_get :: "stats \<Rightarrow> string \<Rightarrow> nat" where
  "stats_get [] k = 0"
| "stats_get ((k', n) # kvs) k = (if k' = k then n else stats_get kvs k)"

fun stats_incr :: "stats \<Rightarrow> string \<Rightarrow> stats" where
  "stats_incr [] k = [(k, 1)]"
| "stats_incr ((k', n) # kvs) k =
     (if k' = k then (k', n + 1) # kvs else (k', n) # stats_incr kvs k)"

definition stats_total :: "stats \<Rightarrow> nat" where
  "stats_total stats = sum_list (map snd stats)"

subsection \<open>\<^verbatim>\<open>command_line\<close>\<close>

definition command_line :: "backend \<Rightarrow> string \<Rightarrow> bool \<Rightarrow> world \<Rightarrow> string outcome" where
  "command_line be command verbose w =
     (case check_output be w command of
        Raises e \<Rightarrow> Raised e (w @ [CheckOutput command])
      | Replies out \<Rightarrow>
          (let out_lines = split_newline out in
           if 2 \<le> length out_lines
           then Returned (out_lines ! (length out_lines - 2)) (w @ [CheckOutput command])
           else Raised IndexError (w @ [CheckOutput command])))"

subsection \<open>The batch client's termination calls\<close>

text \<open>
  Modelled from the spec: \<^verbatim>\<open>batchclient.hard_terminate\<close> is not part of the sources.
  The bulk termination asks the service to terminate every handle it is given, with the
  reason, and ends the run: the condition propagates to the caller as a failed run. Here
  it is one recorded call that raises \<^verbatim>\<open>BatchJobException(reason)\<close>.
\<close>

definition hard_terminate :: "job_id list \<Rightarrow> string \<Rightarrow> world \<Rightarrow> 'a outcome" where
  "hard_terminate job_ids reason w =
     Raised (BatchJobException reason) (w @ [HardTerminate job_ids reason])"

text \<open>
  Modelled from the spec: \<^verbatim>\<open>batchclient.terminate_job\<close> is not part of the sources.
  Terminating one job is best effort and never raises.
\<close>

definition terminate_job :: "job_id \<Rightarrow> string \<Rightarrow> world \<Rightarrow> world" where
  "terminate_job job_id reason w = w @ [TerminateJob job_id reason]"

subsection \<open>\<^verbatim>\<open>_assert_timeout\<close> and \<^verbatim>\<open>_assert_success\<close>\<close>

text \<open>
  The log line of \<^verbatim>\<open>_assert_timeout\<close> reads the clock twice; the comparison is made
  on a third reading.
\<close>

definition assert_timeout :: "backend \<Rightarrow> rat \<Rightarrow> job_id list \<Rightarrow> world \<Rightarrow> unit outcome" where
  "assert_timeout be TIMEOUT job_ids w =
     (let w1 = w @ [Now, Now] in
      if time_at be w1 < TIMEOUT then Returned () (w1 @ [Now])
      else hard_terminate job_ids ''Impending worker timeout, so killing live tasks''
             (w1 @ [Now]))"

text \<open>
  \<^verbatim>\<open>success_rate\<close> is a float parameter: the record holds the number as it is
  configured, and the float that \<^verbatim>\<open>self.success_rate\<close> reads is the double nearest to
  it. The division is that of two integers, the rest is float arithmetic.
\<close>

definition assert_success :: "task \<Rightarrow> job_id list \<Rightarrow> stats \<Rightarrow> world \<Rightarrow> unit outcome" where
  "assert_success self job_ids stats w =
     (let total = stats_total stats in
      if total = 0 then Raised ZeroDivisionError w
      else
        (let failure_rate = int_truediv (int (stats_get stats FAILED)) (int total) in
         if failure_rate \<le> float_sub 1 (float_round (success_rate self)) then Returned () w
         else
           (let reason = ''Exiting due to high failure rate: ''
                           @ str_int (py_int (float_mul failure_rate 100)) @ ''%''
            in hard_terminate job_ids reason w)))"

subsection \<open>\<^verbatim>\<open>_monitor_batch_jobs\<close>\<close>

text \<open>The \<^verbatim>\<open>for\<close> loop of one monitoring cycle.\<close>

fun poll_jobs ::
  "backend \<Rightarrow> job_id list \<Rightarrow> stats \<Rightarrow> job_id set \<Rightarrow> world \<Rightarrow> (stats \<times> job_id set) outcome"
where
  "poll_jobs be [] stats done_jobs w = Returned (stats, done_jobs) w"
| "poll_jobs be (job # rest) stats done_jobs w =
     (case get_job_status be w job of
        Raises e \<Rightarrow> Raised e (w @ [GetJobStatus job])
      | Replies status \<Rightarrow>
          (if status \<notin> {SUCCEEDED, FAILED, RUNNING}
           then poll_jobs be rest stats done_jobs (w @ [GetJobStatus job])
           else if status = RUNNING
           then poll_jobs be rest (stats_incr stats status) done_jobs (w @ [GetJobStatus job])
           else poll_jobs be rest (stats_incr stats status) (insert job done_jobs)
                  (w @ [GetJobStatus job])))"

text \<open>The body of the \<^verbatim>\<open>while\<close> loop.\<close>

definition monitor_cycle ::
  "backend \<Rightarrow> task \<Rightarrow> rat \<Rightarrow> job_id list \<Rightarrow> job_id set \<Rightarrow> world \<Rightarrow> (job_id set) outcome"
where
  "monitor_cycle be self TIMEOUT job_ids done_jobs w =
     (case assert_timeout be TIMEOUT job_ids w of
        Raised e w1 \<Rightarrow> Raised e w1
      | Returned u w1 \<Rightarrow>
     (case poll_jobs be job_ids [] done_jobs w1 of
        Raised e w2 \<Rightarrow> Raised e w2
      | Returned (stats, done_jobs') w2 \<Rightarrow>
     (case (if 0 < length stats then assert_success self job_ids stats w2
            else Returned () w2) of
        Raised e w3 \<Rightarrow> Raised e w3
      | Returned u w3 \<Rightarrow> Returned done_jobs' (w3 @ [Sleep (poll_time self)]))))"

text \<open>The \<^verbatim>\<open>while\<close> loop; it need not end, so its result is optional.\<close>

partial_function (option) monitor_loop ::
  "backend \<Rightarrow> task \<Rightarrow> rat \<Rightarrow> job_id list \<Rightarrow> job_id set \<Rightarrow> world \<Rightarrow> (job_id set) outcome option"
where
  "monitor_loop be self TIMEOUT job_ids done_jobs w =
     (if 0 < int (length job_ids) - int (card done_jobs)
      then (case monitor_cycle be self TIMEOUT job_ids done_jobs w of
              Raised e w' \<Rightarrow> Some (Raised e w')
            | Returned done_jobs' w' \<Rightarrow> monitor_loop be self TIMEOUT job_ids done_jobs' w')
      else Some (Returned done_jobs w))"

declare monitor_loop.simps [code]

text \<open>The last check of status, after the loop.\<close>

fun last_poll ::
  "backend \<Rightarrow> job_id list \<Rightarrow> stats \<Rightarrow> bool \<Rightarrow> world \<Rightarrow> (stats \<times> bool) outcome"
where
  "last_poll be [] stats unexplained_jobs w = Returned (stats, unexplained_jobs) w"
| "last_poll be (job # rest) stats unexplained_jobs w =
     (case get_job_status be w job of
        Raises e \<Rightarrow> Raised e (w @ [GetJobStatus job])
      | Replies status \<Rightarrow>
          (if status \<notin> {SUCCEEDED, FAILED}
           then last_poll be rest stats True
                  (terminate_job job ''Jobs should no longer be running''
                     (w @ [GetJobStatus job]))
           else last_poll be rest (stats_incr stats status) unexplained_jobs
                  (w @ [GetJobStatus job])))"

definition last_check :: "backend \<Rightarrow> task \<Rightarrow> job_id list \<Rightarrow> world \<Rightarrow> unit outcome" where
  "last_check be self job_ids w =
     (case last_poll be job_ids [] False w of
        Raised e w1 \<Rightarrow> Raised e w1
      | Returned (stats, unexplained_jobs) w1 \<Rightarrow>
          (if unexplained_jobs
           then Raised (BatchJobException ''Jobs should no longer be running'') w1
           else if 0 < length stats then assert_success self job_ids stats w1
           else Returned () w1))"

definition monitor_batch_jobs ::
  "backend \<Rightarrow> task \<Rightarrow> rat \<Rightarrow> job_id list \<Rightarrow> world \<Rightarrow> unit outcome option"
where
  "monitor_batch_jobs be self TIMEOUT job_ids w =
     (case monitor_loop be self TIMEOUT job_ids {} w of
        None \<Rightarrow> None
      | Some (Raised e w1) \<Rightarrow> Some (Raised e w1)
      | Some (Returned done_jobs w1) \<Rightarrow> Some (last_check be self job_ids w1))"

subsection \<open>\<^verbatim>\<open>execute\<close>\<close>

definition env_variables ::
  "string \<Rightarrow> string \<Rightarrow> string \<Rightarrow> job_params \<Rightarrow> (string \<times> string) list"
where
  "env_variables aws_id aws_secret s3file_timestamp params =
     [(''AWS_ACCESS_KEY_ID'', aws_id),
      (''AWS_SECRET_ACCESS_KEY'', aws_secret),
      (''BATCHPAR_S3FILE_TIMESTAMP'', s3file_timestamp)]
     @ map (\<lambda>(k, v). (''BATCHPAR_'' @ k, str_py v)) params"

definition job_spec :: "task \<Rightarrow> string \<Rightarrow> string \<Rightarrow> string \<Rightarrow> job_params \<Rightarrow> submission" where
  "job_spec self aws_id aws_secret s3file_timestamp params =
     \<lparr> jobDefinition = job_def self,
       jobName = job_name self,
       jobQueue = job_queue self,
       attemptDurationSeconds = timeout self,
       environment = env_variables aws_id aws_secret s3file_timestamp params,
       memory_override = memory self,
       vcpus_override = vcpus self \<rparr>"

text \<open>
  The submission loop over \<^verbatim>\<open>enumerate(job_params)\<close>: \<open>i\<close> is the position in the
  list, \<open>job_ids\<close> the handles collected so far.
\<close>

fun submit_jobs ::
  "backend \<Rightarrow> task \<Rightarrow> rat \<Rightarrow> string \<Rightarrow> string \<Rightarrow> string \<Rightarrow> nat \<Rightarrow> job_params list
     \<Rightarrow> job_id list \<Rightarrow> world \<Rightarrow> (job_id list) outcome"
where
  "submit_jobs be self TIMEOUT aws_id aws_secret ts i [] job_ids w = Returned job_ids w"
| "submit_jobs be self TIMEOUT aws_id aws_secret ts i (params # rest) job_ids w =
     (case assert_timeout be TIMEOUT job_ids w of
        Raised e w1 \<Rightarrow> Raised e w1
      | Returned u w1 \<Rightarrow>
     (case map_of params ''done'' of
        None \<Rightarrow> Raised (KeyError ''done'') w1
      | Some d \<Rightarrow>
          if truthy d
          then submit_jobs be self TIMEOUT aws_id aws_secret ts (Suc i) rest job_ids w1
          else if (case max_runs self of None \<Rightarrow> False | Some m \<Rightarrow> m \<le> int i)
          then Returned job_ids w1
          else
            (let spec = job_spec self aws_id aws_secret ts params in
             case submit_job be w1 spec of
               Raises e \<Rightarrow> Raised e (w1 @ [SubmitJob spec])
             | Replies job \<Rightarrow>
                 submit_jobs be self TIMEOUT aws_id aws_secret ts (Suc i) rest
                   (job_ids @ [job]) (w1 @ [SubmitJob spec]))))"

definition execute ::
  "backend \<Rightarrow> task \<Rightarrow> rat \<Rightarrow> job_params list \<Rightarrow> string \<Rightarrow> world \<Rightarrow> unit outcome option"
where
  "execute be self TIMEOUT job_params s3file_timestamp w =
     (case command_line be ''aws --profile default configure get aws_access_key_id''
             (test self) w of
        Raised e w1 \<Rightarrow> Some (Raised e w1)
      | Returned aws_id w1 \<Rightarrow>
     (case command_line be ''aws --profile default configure get aws_secret_access_key''
             (test self) w1 of
        Raised e w2 \<Rightarrow> Some (Raised e w2)
      | Returned aws_secret w2 \<Rightarrow>
     (case submit_jobs be self TIMEOUT aws_id aws_secret s3file_timestamp 0 job_params [] w2 of
        Raised e w3 \<Rightarrow> Some (Raised e w3)
      | Returned job_ids w3 \<Rightarrow> monitor_batch_jobs be self TIMEOUT job_ids w3)))"

subsection \<open>\<^verbatim>\<open>run\<close>\<close>

text \<open>
  \<open>prepared\<close> is the list the workload's \<^verbatim>\<open>prepare\<close> returns; \<^verbatim>\<open>combine\<close> is a
  recorded call.
\<close>

definition run :: "backend \<Rightarrow> task \<Rightarrow> job_params list \<Rightarrow> world \<Rightarrow> unit outcome option" where
  "run be self prepared w =
     (let TIMEOUT = time_at be w + of_int (config_timeout self);
          w0 = w @ [Now];
          job_params = (if test self
                        then (if 2 < length prepared then take 2 prepared else prepared)
                        else prepared);
          command = ''nesta_prepare_batch '' @ batchable self @ '' ''
                      @ join_str '' '' (env_files self)
      in case command_line be command (test self) w0 of
           Raised e w1 \<Rightarrow>
             (if e = CalledProcessError
              then Some (Raised (BatchJobException ''Invalid input or environment files'') w1)
              else Some (Raised e w1))
         | Returned s3file_timestamp w1 \<Rightarrow>
             (case execute be self TIMEOUT job_params s3file_timestamp w1 of
                None \<Rightarrow> None
              | Some (Raised e w2) \<Rightarrow> Some (Raised e w2)
              | Some (Returned u w2) \<Rightarrow> Some (Returned () (w2 @ [Combine job_params]))))"

subsection \<open>The states the monitoring loop visits\<close>

text \<open>
  The states in which the \<^verbatim>\<open>while\<close> loop of \<^verbatim>\<open>_monitor_batch_jobs\<close> tests its
  condition, in a monitoring that starts with the history \<open>w0\<close>: the done jobs and the
  history at the head of the loop.
\<close>

inductive monitor_visits ::
  "backend \<Rightarrow> task \<Rightarrow> rat \<Rightarrow> job_id list \<Rightarrow> world \<Rightarrow> job_id set \<Rightarrow> world \<Rightarrow> bool"
  for be self TIMEOUT job_ids w0
where
  start: "monitor_visits be self TIMEOUT job_ids w0 {} w0"
| cycle: "monitor_visits be self TIMEOUT job_ids w0 done_jobs w \<Longrightarrow>
          0 < int (length job_ids) - int (card done_jobs) \<Longrightarrow>
          monitor_cycle be self TIMEOUT job_ids done_jobs w = Returned done_jobs' w' \<Longrightarrow>
          monitor_visits be self TIMEOUT job_ids w0 done_jobs' w'"

section \<open>Observations\<close>

text \<open>
  What the statements below say about a run, they say about its history of calls. None
  of the following is part of the program.
\<close>

subsection \<open>Calls in a history\<close>

text \<open>
  The terminations, single and bulk; the single terminations with their reasons; the
  submissions; the consolidations; and the events that monitoring makes.
\<close>

fun is_terminate :: "event \<Rightarrow> bool" where
  "is_terminate (TerminateJob j r) = True"
| "is_terminate (HardTerminate js r) = True"
| "is_terminate e = False"

definition terminate_calls :: "world \<Rightarrow> event list" where
  "terminate_calls w = filter is_terminate w"

fun terminated :: "event list \<Rightarrow> (job_id \<times> string) list" where
  "terminated [] = []"
| "terminated (TerminateJob job reason # es) = (job, reason) # terminated es"
| "terminated (e # es) = terminated es"

fun submitted :: "event list \<Rightarrow> submission list" where
  "submitted [] = []"
| "submitted (SubmitJob spec # es) = spec # submitted es"
| "submitted (e # es) = submitted es"

fun combined :: "event list \<Rightarrow> job_params list list" where
  "combined [] = []"
| "combined (Combine job_params # es) = job_params # combined es"
| "combined (e # es) = combined es"

fun monitoring_event :: "event \<Rightarrow> bool" where
  "monitoring_event (SubmitJob spec) = False"
| "monitoring_event (Combine job_params) = False"
| "monitoring_event (CheckOutput command) = False"
| "monitoring_event e = True"

subsection \<open>Answers of the service\<close>

text \<open>
  The answers to the status queries of one pass over the handles \<open>job_ids\<close>, made
  after the history \<open>w\<close>, when no query raises: each query is asked after the ones
  before it.
\<close>

fun pass_replies :: "backend \<Rightarrow> world \<Rightarrow> job_id list \<Rightarrow> string reply list" where
  "pass_replies be w [] = []"
| "pass_replies be w (job # rest) =
     get_job_status be w job # pass_replies be (w @ [GetJobStatus job]) rest"

text \<open>
  The status queries among the events \<open>es\<close> that follow the history \<open>h\<close>, each with
  the answer of the service; an answer that is not a terminal status; a query that was
  answered at all.
\<close>

fun answers :: "backend \<Rightarrow> world \<Rightarrow> event list \<Rightarrow> (job_id \<times> string reply) list" where
  "answers be h [] = []"
| "answers be h (GetJobStatus job # es) =
     (job, get_job_status be h job) # answers be (h @ [GetJobStatus job]) es"
| "answers be h (e # es) = answers be (h @ [e]) es"

definition anomaly :: "job_id \<times> string reply \<Rightarrow> bool" where
  "anomaly a = (snd a \<noteq> Replies SUCCEEDED \<and> snd a \<noteq> Replies FAILED)"

definition answered :: "job_id \<times> string reply \<Rightarrow> bool" where
  "answered a = (case snd a of Raises e \<Rightarrow> False | Replies s \<Rightarrow> True)"

text \<open>
  What a pass records, as functions of its answers: the tally, and the handles that
  join the done jobs.
\<close>

fun tally :: "stats \<Rightarrow> string reply list \<Rightarrow> stats" where
  "tally st [] = st"
| "tally st (Raises e # rs) = tally st rs"
| "tally st (Replies s # rs) =
     (if s = SUCCEEDED \<or> s = FAILED \<or> s = RUNNING
      then tally (stats_incr st s) rs else tally st rs)"

fun finished :: "job_id list \<Rightarrow> string reply list \<Rightarrow> job_id set" where
  "finished (j # js) (r # rs) =
     (if r = Replies SUCCEEDED \<or> r = Replies FAILED
      then insert j (finished js rs) else finished js rs)"
| "finished js rs = {}"

subsection \<open>Descriptors\<close>

text \<open>
  A descriptor that is there to be submitted: it has a \<open>done\<close> and that is not true.
\<close>

definition not_done :: "job_params \<Rightarrow> bool" where
  "not_done params = (case map_of params ''done'' of None \<Rightarrow> False | Some d \<Rightarrow> \<not> truthy d)"

section \<open>Example worlds\<close>

text \<open>
  A service on which every job has succeeded, a shell that prints a key, and a clock that
  stands still; and the parameters of a task, with the defaults of the code for those
  that have one.
\<close>

definition be_ok :: backend where
  "be_ok =
     \<lparr> time_at = (\<lambda>w. 0),
       check_output = (\<lambda>w c. Replies (''ok'' @ [CHR 0x0A] @ ''key'' @ [CHR 0x0A])),
       submit_job = (\<lambda>w s. Replies (''job'' @ str_nat (length w))),
       get_job_status = (\<lambda>w j. Replies SUCCEEDED) \<rparr>"

definition task0 :: task where
  "task0 =
     \<lparr> batchable = ''batchable'', job_def = ''def'', job_name = ''name'', job_queue = ''queue'',
       region_name = ''region'', env_files = [], vcpus = 1, memory = 512, max_runs = None,
       timeout = 21600, poll_time = 60, success_rate = 95 / 100, test = True,
       config_timeout = 1000 \<rparr>"

text \<open>
  A service on which the status of a job is told by its name; one on which the query for
  \<open>x\<close> fails as long as fewer than six calls have been made; and one on which \<open>u\<close>,
  reported as succeeded at first, is reported as running once six calls have been made.
\<close>

definition be_mixed :: backend where
  "be_mixed =
     \<lparr> time_at = (\<lambda>w. 0),
       check_output = (\<lambda>w c. Replies (''ok'' @ [CHR 0x0A] @ ''key'' @ [CHR 0x0A])),
       submit_job = (\<lambda>w s. Replies (''job'' @ str_nat (length w))),
       get_job_status = (\<lambda>w j. Replies (if j = ''f'' then FAILED
                                          else if j = ''s'' then SUCCEEDED
                                          else if j = ''q'' then ''RUNNABLE''
                                          else RUNNING)) \<rparr>"

definition be_flaky :: backend where
  "be_flaky =
     \<lparr> time_at = (\<lambda>w. 0),
       check_output = (\<lambda>w c. Replies (''ok'' @ [CHR 0x0A] @ ''key'' @ [CHR 0x0A])),
       submit_job = (\<lambda>w s. Replies (''job'' @ str_nat (length w))),
       get_job_status = (\<lambda>w j. if j = ''x'' \<and> length w < 6
                                  then Raises (StatusQueryError ''HTTP 500'')
                                  else Replies SUCCEEDED) \<rparr>"

definition be_stuck :: backend where
  "be_stuck =
     \<lparr> time_at = (\<lambda>w. 0),
       check_output = (\<lambda>w c. Replies (''ok'' @ [CHR 0x0A] @ ''key'' @ [CHR 0x0A])),
       submit_job = (\<lambda>w s. Replies (''job'' @ str_nat (length w))),
       get_job_status = (\<lambda>w j. Replies (if j = ''u'' \<and> 6 \<le> length w then RUNNING
                                          else SUCCEEDED)) \<rparr>"

text \<open>
  A service on which a job is running until eight calls have been made and has succeeded
  from then on, with a clock that ticks at every call; and one on which the job succeeds
  right after the first poll, while the clock jumps past the deadline during the sleep
  that follows.
\<close>

definition be_slow :: backend where
  "be_slow =
     \<lparr> time_at = (\<lambda>w. of_nat (length w)),
       check_output = (\<lambda>w c. Replies (''ok'' @ [CHR 0x0A] @ ''key'' @ [CHR 0x0A])),
       submit_job = (\<lambda>w s. Replies (''job'' @ str_nat (length w))),
       get_job_status = (\<lambda>w j. Replies (if length w < 8 then RUNNING else SUCCEEDED)) \<rparr>"

definition be_late :: backend where
  "be_late =
     \<lparr> time_at = (\<lambda>w. if length w \<le> 4 then 5 else 60),
       check_output = (\<lambda>w c. Replies (''ok'' @ [CHR 0x0A] @ ''key'' @ [CHR 0x0A])),
       submit_job = (\<lambda>w s. Replies (''job'' @ str_nat (length w))),
       get_job_status = (\<lambda>w j. Replies (if length w < 4 then RUNNING else SUCCEEDED)) \<rparr>"

text \<open>
  A service on which the status of a job is told by the first letter of its name, and
  \<open>n\<close> handles with a given letter.
\<close>

definition be_letter :: backend where
  "be_letter =
     \<lparr> time_at = (\<lambda>w. 0),
       check_output = (\<lambda>w c. Replies (''ok'' @ [CHR 0x0A] @ ''key'' @ [CHR 0x0A])),
       submit_job = (\<lambda>w s. Replies (''job'' @ str_nat (length w))),
       get_job_status = (\<lambda>w j. Replies (if take 1 j = ''f'' then FAILED
                                          else if take 1 j = ''s'' then SUCCEEDED
                                          else RUNNING)) \<rparr>"

definition handles :: "string \<Rightarrow> nat \<Rightarrow> job_id list" where
  "handles letter n = map (\<lambda>i. letter @ str_nat i) [0..<n]"

text \<open>Three descriptors, the first of them done.\<close>

definition descriptors3 :: "job_params list" where
  "descriptors3 =
     [[(''done'', PyBool True), (''outinfo'', PyStr ''out0'')],
      [(''done'', PyBool False), (''outinfo'', PyStr ''out1'')],
      [(''done'', PyBool False), (''outinfo'', PyStr ''out2'')]]"

section \<open>Properties\<close>

subsection \<open>Rounding to a float\<close>

lemma pow2_powi: "pow2 e = 2 powi e"
  by (simp add: pow2_def power_int_def field_simps)

lemma pow2_pos [simp]: "0 < pow2 e"
  by (simp add: pow2_def)

lemma pow2_neq_0 [simp]: "pow2 e \<noteq> 0"
  by (simp add: pow2_def)

lemma pow2_mono: "a \<le> b \<Longrightarrow> pow2 a \<le> pow2 b"
  unfolding pow2_powi by (rule power_int_increasing) simp_all

lemma pow2_minus: "pow2 (- e) = 1 / pow2 e"
  unfolding pow2_powi by (simp add: power_int_minus divide_inverse)

lemma bit_length_nonneg: "0 \<le> bit_length n"
  by (induction n rule: bit_length.induct) (subst bit_length.simps, simp)

lemma bit_length_mono: "m \<le> n \<Longrightarrow> bit_length m \<le> bit_length n"
proof (induction n arbitrary: m rule: bit_length.induct)
  case (1 n)
  show ?case
  proof (cases "n \<le> 0")
    case True
    with 1 show ?thesis by (simp add: bit_length.simps)
  next
    case n: False
    show ?thesis
    proof (cases "m \<le> 0")
      case True
      then show ?thesis using bit_length_nonneg [of n] by (simp add: bit_length.simps [of m])
    next
      case False
      from 1(2) have "m div 2 \<le> n div 2" by (rule zdiv_mono1) simp
      with 1(1) [OF n] have "bit_length (m div 2) \<le> bit_length (n div 2)" by simp
      with n False show ?thesis
        by (simp add: bit_length.simps [of m] bit_length.simps [of n])
    qed
  qed
qed

text \<open>A positive number that is at most one has an exponent that is at most zero.\<close>

lemma ilog2_le_0:
  assumes "0 < x" "x \<le> 1"
  shows "ilog2 x \<le> 0"
proof -
  obtain p q where pq: "quotient_of x = (p, q)" by (cases "quotient_of x")
  then have q: "0 < q" and x: "x = of_int p / of_int q"
    by (simp_all add: quotient_of_denom_pos quotient_of_div)
  from assms(2) q x have "p \<le> q" by (simp add: field_simps)
  then have "bit_length p \<le> bit_length q" by (rule bit_length_mono)
  then show ?thesis by (simp add: ilog2_def pq Let_def)
qed

lemma round_half_even_bounds:
  "\<lfloor>m\<rfloor> \<le> round_half_even m" "round_half_even m \<le> \<lceil>m\<rceil>"
  "\<bar>of_int (round_half_even m) - m\<bar> \<le> 1 / 2"
proof -
  show "\<lfloor>m\<rfloor> \<le> round_half_even m" by (simp add: round_half_even_def Let_def)
  show "round_half_even m \<le> \<lceil>m\<rceil>"
    by (auto simp: round_half_even_def Let_def ceiling_altdef)
  show "\<bar>of_int (round_half_even m) - m\<bar> \<le> 1 / 2"
    by (auto simp: round_half_even_def Let_def abs_if not_less) linarith+
qed

lemma float_round_0 [simp]: "float_round 0 = 0"
  by (simp add: float_round_def)

lemma round_half_even_scaled_nonneg: "0 \<le> of_int (round_half_even (\<bar>x\<bar> / pow2 q)) * pow2 q"
proof -
  have "0 \<le> round_half_even (\<bar>x\<bar> / pow2 q)"
    using round_half_even_bounds(1) [of "\<bar>x\<bar> / pow2 q"]
    by (meson abs_ge_zero divide_nonneg_pos order_trans pow2_pos zero_le_floor)
  then show ?thesis by (simp add: less_imp_le)
qed

lemma float_round_nonneg: "0 \<le> x \<Longrightarrow> 0 \<le> float_round x"
  using round_half_even_scaled_nonneg [of x]
  by (simp add: float_round_def Let_def sgn_if)

lemma float_round_nonpos: "x \<le> 0 \<Longrightarrow> float_round x \<le> 0"
  using round_half_even_scaled_nonneg [of x]
  by (simp add: float_round_def Let_def sgn_if)

text \<open>
  Rounding keeps a number of the unit interval there, and moves it by at most half a unit
  in the last place of the numbers below one.
\<close>

lemma float_round_unit:
  assumes "0 \<le> x" "x \<le> 1"
  shows "float_round x \<le> 1" and "\<bar>float_round x - x\<bar> \<le> 1 / 2 ^ 53"
proof -
  show "float_round x \<le> 1"
  proof (cases "x = 0")
    case True
    then show ?thesis by simp
  next
    case False
    with assms have pos: "0 < x" by simp
    define q where "q = max (ilog2 \<bar>x\<bar> - 52) (- 1074)"
    from ilog2_le_0 [OF pos assms(2)] pos have q0: "q \<le> 0" by (simp add: q_def)
    have fr: "float_round x = of_int (round_half_even (x / pow2 q)) * pow2 q"
      using pos by (simp add: float_round_def q_def Let_def)
    have "x / pow2 q \<le> 1 / pow2 q"
      using assms(2) by (intro divide_right_mono) (simp_all add: less_imp_le)
    also have "1 / pow2 q = pow2 (- q)" by (simp add: pow2_minus)
    also have "pow2 (- q) = of_int (2 ^ nat (- q))" using q0 by (simp add: pow2_def)
    finally have "\<lceil>x / pow2 q\<rceil> \<le> 2 ^ nat (- q)" by (simp add: ceiling_le_iff)
    with round_half_even_bounds(2) [of "x / pow2 q"]
    have "round_half_even (x / pow2 q) \<le> 2 ^ nat (- q)" by simp
    then have "(of_int (round_half_even (x / pow2 q)) :: rat) \<le> of_int (2 ^ nat (- q))"
      by (simp only: of_int_le_iff)
    then have "of_int (round_half_even (x / pow2 q)) * pow2 q \<le> of_int (2 ^ nat (- q)) * pow2 q"
      by (simp add: mult_right_mono)
    also have "of_int (2 ^ nat (- q)) * pow2 q = 1"
      using q0 pow2_minus [of q] by (simp add: pow2_def mult.commute)
    finally show ?thesis by (simp add: fr)
  qed
  show "\<bar>float_round x - x\<bar> \<le> 1 / 2 ^ 53"
  proof (cases "x = 0")
    case True
    then show ?thesis by simp
  next
    case False
    with assms have pos: "0 < x" by simp
    define q where "q = max (ilog2 \<bar>x\<bar> - 52) (- 1074)"
    from ilog2_le_0 [OF pos assms(2)] pos have q0: "q \<le> - 52" by (simp add: q_def)
    have fr: "float_round x = of_int (round_half_even (x / pow2 q)) * pow2 q"
      using pos by (simp add: float_round_def q_def Let_def)
    have "float_round x - x = (of_int (round_half_even (x / pow2 q)) - x / pow2 q) * pow2 q"
      by (simp add: fr field_simps)
    then have "\<bar>float_round x - x\<bar>
                 = \<bar>of_int (round_half_even (x / pow2 q)) - x / pow2 q\<bar> * pow2 q"
      by (simp add: abs_mult abs_of_pos)
    also have "\<dots> \<le> (1 / 2) * pow2 q"
      using round_half_even_bounds(3) [of "x / pow2 q"] by (simp add: mult_right_mono)
    also have "\<dots> \<le> (1 / 2) * pow2 (- 52)"
      using pow2_mono [OF q0] by simp
    also have "\<dots> = 1 / 2 ^ 53" by (simp add: pow2_def)
    finally show ?thesis .
  qed
qed

lemma float_round_le_1: "x \<le> 1 \<Longrightarrow> float_round x \<le> 1"
proof (cases "0 \<le> x")
  case True
  assume "x \<le> 1"
  with True show ?thesis by (rule float_round_unit(1))
next
  case False
  then have "float_round x \<le> 0" by (intro float_round_nonpos) simp
  then show ?thesis by simp
qed

lemma int_truediv_0 [simp]: "int_truediv 0 b = 0"
  by (simp add: int_truediv_def)

text \<open>With a success rate of at most one, the threshold of the breaker is not negative.\<close>

lemma threshold_nonneg: "s \<le> 1 \<Longrightarrow> 0 \<le> float_sub 1 (float_round s)"
  unfolding float_sub_def by (rule float_round_nonneg) (simp add: float_round_le_1)

text \<open>
  The rounding agrees with the floats of Python on these: \<^verbatim>\<open>0.1\<close>; the ties at
  \<open>2 ^ 53 + 1\<close> and \<open>2 ^ 53 + 3\<close>; \<^verbatim>\<open>29 / 50 * 100\<close>, which is \<^verbatim>\<open>57.99999999999999\<close>;
  \<^verbatim>\<open>1 - 0.8\<close>, which is less than \<^verbatim>\<open>1 / 5\<close>; and \<^verbatim>\<open>1 - 0.4\<close>, which is \<^verbatim>\<open>3 / 5\<close>.
\<close>

lemma float_round_examples:
  "float_round (1 / 10) = 3602879701896397 / 2 ^ 55"
  "float_round (2 ^ 53 + 1) = 2 ^ 53"
  "float_round (2 ^ 53 + 3) = 2 ^ 53 + 4"
  "float_mul (int_truediv 29 50) 100 = 8162774324609023 / 2 ^ 47"
  "float_sub 1 (float_round (8 / 10)) < int_truediv 1 5"
  "float_sub 1 (float_round (4 / 10)) = int_truediv 3 5"
  by code_simp+

subsection \<open>The tally and one pass over the handles\<close>

lemma status_distinct [simp]:
  "SUCCEEDED \<noteq> FAILED" "SUCCEEDED \<noteq> RUNNING" "FAILED \<noteq> RUNNING"
  "FAILED \<noteq> SUCCEEDED" "RUNNING \<noteq> SUCCEEDED" "RUNNING \<noteq> FAILED"
  by (simp_all add: SUCCEEDED_def FAILED_def RUNNING_def)

lemma terminate_calls_append:
  "terminate_calls (es @ es') = terminate_calls es @ terminate_calls es'"
  by (simp add: terminate_calls_def)

lemma terminate_calls_queries [simp]: "terminate_calls (map GetJobStatus js) = []"
  by (induction js) (simp_all add: terminate_calls_def)

lemma length_pass_replies [simp]: "length (pass_replies be w js) = length js"
  by (induction js arbitrary: w) auto

lemma poll_jobs_eq:
  "list_all (\<lambda>r. \<exists>s. r = Replies s) (pass_replies be w js) \<Longrightarrow>
   poll_jobs be js st d w =
     Returned (tally st (pass_replies be w js), d \<union> finished js (pass_replies be w js))
       (w @ map GetJobStatus js)"
proof (induction js arbitrary: st d w)
  case Nil
  then show ?case by simp
next
  case (Cons j js)
  from Cons.prems obtain s where s: "get_job_status be w j = Replies s"
    by auto
  from Cons.prems have rest: "list_all (\<lambda>r. \<exists>s. r = Replies s) (pass_replies be (w @ [GetJobStatus j]) js)"
    by simp
  show ?case
    using s Cons.IH [OF rest] by simp
qed

lemma stats_get_incr:
  "stats_get (stats_incr st k) k' = (if k = k' then stats_get st k + 1 else stats_get st k')"
  by (induction st k rule: stats_incr.induct) auto

lemma stats_total_incr: "stats_total (stats_incr st k) = stats_total st + 1"
  by (induction st k rule: stats_incr.induct) (auto simp: stats_total_def)

lemma stats_get_tally:
  "stats_get (tally st rs) k =
     stats_get st k + (if k = SUCCEEDED \<or> k = FAILED \<or> k = RUNNING
                       then count_list rs (Replies k) else 0)"
  by (induction st rs rule: tally.induct) (auto simp: stats_get_incr)

lemma stats_total_tally:
  "stats_total (tally st rs) =
     stats_total st + count_list rs (Replies SUCCEEDED) + count_list rs (Replies FAILED)
       + count_list rs (Replies RUNNING)"
  by (induction st rs rule: tally.induct) (auto simp: stats_total_incr)

text \<open>Every key of the tally has a positive count.\<close>

lemma stats_incr_pos:
  "list_all (\<lambda>(k, n). 0 < n) st \<Longrightarrow> list_all (\<lambda>(k, n). 0 < n) (stats_incr st k)"
  by (induction st k rule: stats_incr.induct) auto

lemma stats_pos_total:
  "list_all (\<lambda>(k, n). 0 < n) st \<Longrightarrow> st \<noteq> [] \<Longrightarrow> 0 < stats_total st"
  by (cases st) (auto simp: stats_total_def)

lemma tally_pos:
  "list_all (\<lambda>(k, n). 0 < n) st \<Longrightarrow> list_all (\<lambda>(k, n). 0 < n) (tally st rs)"
  by (induction st rs rule: tally.induct) (auto simp: stats_incr_pos)

lemma finished_zip:
  "finished js rs =
     fst ` {p \<in> set (zip js rs). snd p = Replies SUCCEEDED \<or> snd p = Replies FAILED}"
  by (induction js rs rule: finished.induct) (auto simp: image_iff)

subsection \<open>The invariant rule of the monitoring loop\<close>

lemma monitor_loop_rule:
  assumes r: "monitor_loop be self T ids d w = Some r"
    and init: "I d w"
    and step: "\<And>d w d' w'. I d w \<Longrightarrow> 0 < int (length ids) - int (card d) \<Longrightarrow>
                 monitor_cycle be self T ids d w = Returned d' w' \<Longrightarrow> I d' w'"
  shows "(\<exists>d' w'. r = Returned d' w' \<and> I d' w' \<and> \<not> 0 < int (length ids) - int (card d'))
       \<or> (\<exists>d0 w0 e w'. I d0 w0 \<and> 0 < int (length ids) - int (card d0) \<and>
             monitor_cycle be self T ids d0 w0 = Raised e w' \<and> r = Raised e w')"
proof -
  define Q where "Q = (\<lambda>r. (\<exists>d' w'. r = Returned d' w' \<and> I d' w' \<and> \<not> 0 < int (length ids) - int (card d'))
       \<or> (\<exists>d0 w0 e w'. I d0 w0 \<and> 0 < int (length ids) - int (card d0) \<and>
             monitor_cycle be self T ids d0 w0 = Raised e w' \<and> r = Raised e w'))"
  define P where "P = (\<lambda>be' self' T' ids' d w r.
     be' = be \<longrightarrow> self' = self \<longrightarrow> T' = T \<longrightarrow> ids' = ids \<longrightarrow> I d w \<longrightarrow> Q r)"
  have "P be self T ids d w r"
  proof (rule monitor_loop.raw_induct [of P, OF _ r])
    fix loop be' self' T' ids' d w r
    assume IH: "\<And>be self T ids d w r. loop be self T ids d w = Some r \<Longrightarrow> P be self T ids d w r"
      and body: "(if 0 < int (length ids') - int (card d)
          then case monitor_cycle be' self' T' ids' d w of
                 Raised e w' \<Rightarrow> Some (Raised e w')
               | Returned done_jobs' w' \<Rightarrow> loop be' self' T' ids' done_jobs' w'
          else Some (Returned d w)) = Some r"
    show "P be' self' T' ids' d w r"
      unfolding P_def
    proof (intro impI)
      assume eqs: "be' = be" "self' = self" "T' = T" "ids' = ids" and inv: "I d w"
      note body' = body [unfolded eqs]
      show "Q r"
      proof (cases "0 < int (length ids) - int (card d)")
        case False
        with body' have "r = Returned d w" by simp
        with inv False show ?thesis unfolding Q_def by simp
      next
        case True
        show ?thesis
        proof (cases "monitor_cycle be self T ids d w")
          case (Raised e w')
          with body' True have "r = Raised e w'" by simp
          with inv True Raised show ?thesis unfolding Q_def by blast
        next
          case (Returned d' w')
          with body' True have "loop be self T ids d' w' = Some r" by simp
          from IH [OF this] have "I d' w' \<longrightarrow> Q r" unfolding P_def by simp
          with step [OF inv True Returned] show ?thesis by simp
        qed
      qed
    qed
  qed
  with init show ?thesis unfolding P_def Q_def by simp
qed

subsection \<open>The breaker never divides by zero\<close>

lemma poll_jobs_pos:
  "poll_jobs be js st d w = Returned (st', d') w' \<Longrightarrow> list_all (\<lambda>(k, n). 0 < n) st \<Longrightarrow>
   list_all (\<lambda>(k, n). 0 < n) st'"
  by (induction js arbitrary: st d w) (auto split: reply.splits if_splits simp: stats_incr_pos)

lemma poll_jobs_Raised:
  "poll_jobs be js st d w = Raised e w' \<Longrightarrow> \<exists>h j. get_job_status be h j = Raises e"
  by (induction js arbitrary: st d w) (auto split: reply.splits if_splits)

lemma assert_success_no_zero_division:
  "0 < stats_total st \<Longrightarrow> assert_success self ids st w \<noteq> Raised ZeroDivisionError w'"
  by (auto simp: assert_success_def Let_def hard_terminate_def)

lemma monitor_cycle_no_zero_division:
  assumes "\<forall>h j. get_job_status be h j \<noteq> Raises ZeroDivisionError"
  shows "monitor_cycle be self T ids d w \<noteq> Raised ZeroDivisionError w'"
proof
  assume a: "monitor_cycle be self T ids d w = Raised ZeroDivisionError w'"
  show False
  proof (cases "assert_timeout be T ids w")
    case (Raised e w1)
    then show ?thesis using a
      by (auto simp: monitor_cycle_def assert_timeout_def hard_terminate_def Let_def split: if_splits)
  next
    case (Returned u w1)
    show ?thesis
    proof (cases "poll_jobs be ids [] d w1")
      case (Raised e w2)
      with a Returned have "e = ZeroDivisionError" by (simp add: monitor_cycle_def)
      with poll_jobs_Raised [OF Raised] assms show ?thesis by auto
    next
      case R2: (Returned p w2)
      obtain st d' where p: "p = (st, d')" by (cases p)
      have pos: "list_all (\<lambda>(k, n). 0 < n) st"
        using poll_jobs_pos [OF R2 [unfolded p]] by simp
      show ?thesis
      proof (cases "st = []")
        case True
        with a Returned R2 p show ?thesis by (simp add: monitor_cycle_def)
      next
        case False
        from stats_pos_total [OF pos False]
        have "assert_success self ids st w2 \<noteq> Raised ZeroDivisionError w'"
          by (rule assert_success_no_zero_division)
        with a Returned R2 p False show ?thesis
          by (auto simp: monitor_cycle_def split: outcome.splits)
      qed
    qed
  qed
qed

lemma last_poll_pos:
  "last_poll be js st u w = Returned (st', u') w' \<Longrightarrow> list_all (\<lambda>(k, n). 0 < n) st \<Longrightarrow>
   list_all (\<lambda>(k, n). 0 < n) st'"
  by (induction js arbitrary: st u w) (auto split: reply.splits if_splits simp: stats_incr_pos)

lemma last_poll_Raised:
  "last_poll be js st u w = Raised e w' \<Longrightarrow> \<exists>h j. get_job_status be h j = Raises e"
  by (induction js arbitrary: st u w) (auto split: reply.splits if_splits)

lemma last_check_no_zero_division:
  assumes "\<forall>h j. get_job_status be h j \<noteq> Raises ZeroDivisionError"
  shows "last_check be self ids w \<noteq> Raised ZeroDivisionError w'"
proof
  assume a: "last_check be self ids w = Raised ZeroDivisionError w'"
  show False
  proof (cases "last_poll be ids [] False w")
    case (Raised e w1)
    with a have "e = ZeroDivisionError" by (simp add: last_check_def)
    with last_poll_Raised [OF Raised] assms show ?thesis by auto
  next
    case R: (Returned p w1)
    obtain st u where p: "p = (st, u)" by (cases p)
    have pos: "list_all (\<lambda>(k, n). 0 < n) st"
      using last_poll_pos [OF R [unfolded p]] by simp
    show ?thesis
    proof (cases "st = []")
      case True
      with a R p show ?thesis by (simp add: last_check_def split: if_splits)
    next
      case False
      from stats_pos_total [OF pos False]
      have "assert_success self ids st w1 \<noteq> Raised ZeroDivisionError w'"
        by (rule assert_success_no_zero_division)
      with a R p False show ?thesis
        by (auto simp: last_check_def split: if_splits)
    qed
  qed
qed

lemma monitor_batch_jobs_no_zero_division:
  assumes nz: "\<forall>h j. get_job_status be h j \<noteq> Raises ZeroDivisionError"
  shows "monitor_batch_jobs be self T ids w \<noteq> Some (Raised ZeroDivisionError w')"
proof
  assume a: "monitor_batch_jobs be self T ids w = Some (Raised ZeroDivisionError w')"
  then obtain r where r: "monitor_loop be self T ids {} w = Some r"
    by (auto simp: monitor_batch_jobs_def split: option.splits)
  from monitor_loop_rule [OF r, of "\<lambda>d w. True"]
  consider (ret) d1 w1 where "r = Returned d1 w1"
    | (err) d0 w0 e w1 where "monitor_cycle be self T ids d0 w0 = Raised e w1" "r = Raised e w1"
    by auto
  then show False
  proof cases
    case ret
    with a r have "last_check be self ids w1 = Raised ZeroDivisionError w'"
      by (simp add: monitor_batch_jobs_def)
    with last_check_no_zero_division [OF nz] show False by blast
  next
    case err
    with a r have "e = ZeroDivisionError" by (simp add: monitor_batch_jobs_def)
    with err monitor_cycle_no_zero_division [OF nz] show False by blast
  qed
qed

text \<open>
  C9. The breaker is evaluated only on a non-empty tally, in the monitoring cycle and in
  the last check alike; a non-empty tally has a strictly positive total, which is the
  denominator of the failure rate, so that the division is never a division by zero: unless
  the service itself raises one, monitoring never ends in \<open>ZeroDivisionError\<close>.
\<close>

theorem breaker_denominator_positive:
  "(poll_jobs be job_ids [] done_jobs w = Returned (stats, done_jobs') w1 \<longrightarrow>
      0 < length stats \<longrightarrow> 0 < stats_total stats)
   \<and> (last_poll be job_ids [] False w = Returned (stats, unexplained_jobs) w1 \<longrightarrow>
      0 < length stats \<longrightarrow> 0 < stats_total stats)
   \<and> ((\<forall>h j. get_job_status be h j \<noteq> Raises ZeroDivisionError) \<longrightarrow>
      monitor_cycle be self TIMEOUT job_ids done_jobs w \<noteq> Raised ZeroDivisionError w'
      \<and> last_check be self job_ids w \<noteq> Raised ZeroDivisionError w'
      \<and> monitor_batch_jobs be self TIMEOUT job_ids w \<noteq> Some (Raised ZeroDivisionError w'))"
proof (intro conjI impI)
  assume "poll_jobs be job_ids [] done_jobs w = Returned (stats, done_jobs') w1"
    and "0 < length stats"
  then show "0 < stats_total stats"
    using poll_jobs_pos [of be job_ids "[]" done_jobs w stats done_jobs' w1]
    by (simp add: stats_pos_total)
next
  assume "last_poll be job_ids [] False w = Returned (stats, unexplained_jobs) w1"
    and "0 < length stats"
  then show "0 < stats_total stats"
    using last_poll_pos [of be job_ids "[]" False w stats unexplained_jobs w1]
    by (simp add: stats_pos_total)
next
  assume "\<forall>h j. get_job_status be h j \<noteq> Raises ZeroDivisionError"
  then show "monitor_cycle be self TIMEOUT job_ids done_jobs w \<noteq> Raised ZeroDivisionError w'"
    by (rule monitor_cycle_no_zero_division)
next
  assume "\<forall>h j. get_job_status be h j \<noteq> Raises ZeroDivisionError"
  then show "last_check be self job_ids w \<noteq> Raised ZeroDivisionError w'"
    by (rule last_check_no_zero_division)
next
  assume "\<forall>h j. get_job_status be h j \<noteq> Raises ZeroDivisionError"
  then show "monitor_batch_jobs be self TIMEOUT job_ids w \<noteq> Some (Raised ZeroDivisionError w')"
    by (rule monitor_batch_jobs_no_zero_division)
qed

theorem breaker_denominator_positive_witness:
  "poll_jobs be_ok [''a''] [] {} [] = Returned ([(SUCCEEDED, 1)], {''a''}) [GetJobStatus ''a'']
   \<and> last_poll be_ok [''a''] [] False [] = Returned ([(SUCCEEDED, 1)], False) [GetJobStatus ''a'']
   \<and> 0 < stats_total [(SUCCEEDED, 1)]
   \<and> monitor_cycle be_ok task0 1 [''a''] {} [] \<noteq> Raised ZeroDivisionError []
   \<and> last_check be_ok task0 [''a''] [] \<noteq> Raised ZeroDivisionError []
   \<and> monitor_batch_jobs be_ok task0 1 [''a''] [] \<noteq> Some (Raised ZeroDivisionError [])"
proof -
  have p: "poll_jobs be_ok [''a''] [] {} [] = Returned ([(SUCCEEDED, 1)], {''a''}) [GetJobStatus ''a'']"
    by (simp add: be_ok_def)
  have l: "last_poll be_ok [''a''] [] False [] = Returned ([(SUCCEEDED, 1)], False) [GetJobStatus ''a'']"
    by (simp add: be_ok_def)
  have nz: "\<forall>h j. get_job_status be_ok h j \<noteq> Raises ZeroDivisionError"
    by (simp add: be_ok_def)
  from breaker_denominator_positive
         [of be_ok "[''a'']" "{}" "[]" "[(SUCCEEDED, 1)]" "{''a''}" "[GetJobStatus ''a'']" False
            task0 1 "[]"]
       p l nz
  show ?thesis by simp
qed

subsection \<open>The failure-rate breaker\<close>

lemma assert_timeout_ok:
  "time_at be (w @ [Now, Now]) < T \<Longrightarrow> assert_timeout be T ids w = Returned () (w @ [Now, Now, Now])"
  by (simp add: assert_timeout_def)

lemma stats_total_Nil [simp]: "stats_total [] = 0"
  by (simp add: stats_total_def)

lemma tally_Nil_iff:
  "tally [] rs = [] \<longleftrightarrow>
     count_list rs (Replies SUCCEEDED) + count_list rs (Replies FAILED)
       + count_list rs (Replies RUNNING) = 0"
proof -
  have "list_all (\<lambda>(k, n). 0 < n) (tally [] rs)" by (rule tally_pos) simp
  then have a: "tally [] rs \<noteq> [] \<longrightarrow> 0 < stats_total (tally [] rs)"
    by (simp add: stats_pos_total)
  have b: "tally [] rs = [] \<longrightarrow> stats_total (tally [] rs) = 0" by simp
  show ?thesis
    using a b stats_total_tally [of "[]" rs] by auto
qed

lemma pass_replies_answered:
  "\<forall>h j. \<exists>s. get_job_status be h j = Replies s \<Longrightarrow>
   list_all (\<lambda>r. \<exists>s. r = Replies s) (pass_replies be w js)"
  by (induction js arbitrary: w) simp_all

text \<open>
  The threshold of the breaker, \<^verbatim>\<open>1 - self.success_rate\<close>, is within \<open>2 ^ - 52\<close> of
  the exact difference when the success rate is a fraction.
\<close>

lemma threshold_near:
  assumes "0 \<le> s" "s \<le> 1"
  shows "\<bar>float_sub 1 (float_round s) - (1 - s)\<bar> \<le> 1 / 2 ^ 52"
proof -
  let ?r = "float_round s"
  from assms have r: "0 \<le> ?r" "?r \<le> 1"
    by (simp_all add: float_round_nonneg float_round_le_1)
  from assms have e1: "\<bar>?r - s\<bar> \<le> 1 / 2 ^ 53" by (rule float_round_unit(2))
  from r have "0 \<le> 1 - ?r" "1 - ?r \<le> 1" by simp_all
  then have e2: "\<bar>float_round (1 - ?r) - (1 - ?r)\<bar> \<le> 1 / 2 ^ 53"
    by (rule float_round_unit(2))
  have "\<bar>float_round (1 - ?r) - (1 - s)\<bar>
          \<le> \<bar>float_round (1 - ?r) - (1 - ?r)\<bar> + \<bar>?r - s\<bar>"
    by linarith
  also from e1 e2 have "\<dots> \<le> 1 / 2 ^ 53 + 1 / 2 ^ 53" by (rule add_mono [rotated])
  also have "\<dots> = (1 :: rat) / 2 ^ 52" by simp
  finally show ?thesis by (simp add: float_sub_def)
qed

text \<open>
  C1, as the code has it. In a monitoring cycle that passes its deadline check, in which
  every status query is answered and the tally is not empty, the failure rate is the
  float nearest to the number of \<open>FAILED\<close> answers over the number of \<open>SUCCEEDED\<close>,
  \<open>FAILED\<close> and \<open>RUNNING\<close> answers of the cycle, and the threshold is the float
  \<^verbatim>\<open>1 - success_rate\<close>. The breaker trips exactly when the rate exceeds the threshold: it
  then terminates all handles in bulk, with a reason that embeds \<^verbatim>\<open>int(failure_rate*100)\<close>,
  a float product cut to an integer, and the cycle raises; otherwise no termination is
  issued and the cycle sleeps and returns. The rate is within \<open>2 ^ - 53\<close> of the exact
  quotient and, for a success rate between zero and one, the threshold within \<open>2 ^ - 52\<close>
  of the exact difference.
\<close>

theorem failure_rate_breaker:
  fixes be :: backend and self :: task and w :: world and job_ids :: "job_id list"
  defines "rs \<equiv> pass_replies be (w @ [Now, Now, Now]) job_ids"
  defines "nS \<equiv> count_list rs (Replies SUCCEEDED)"
  defines "nF \<equiv> count_list rs (Replies FAILED)"
  defines "nR \<equiv> count_list rs (Replies RUNNING)"
  defines "failure_rate \<equiv> int_truediv (int nF) (int (nS + nF + nR))"
  defines "threshold \<equiv> float_sub 1 (float_round (success_rate self))"
  defines "reason \<equiv> ''Exiting due to high failure rate: ''
                      @ str_int (py_int (float_mul failure_rate 100)) @ ''%''"
  defines "polled \<equiv> w @ [Now, Now, Now] @ map GetJobStatus job_ids"
  assumes deadline: "time_at be (w @ [Now, Now]) < TIMEOUT"
    and replies: "list_all (\<lambda>r. \<exists>s. r = Replies s) rs"
    and nonempty: "0 < nS + nF + nR"
  shows "monitor_cycle be self TIMEOUT job_ids done_jobs w =
           (if failure_rate > threshold
            then Raised (BatchJobException reason) (polled @ [HardTerminate job_ids reason])
            else Returned
                   (done_jobs \<union> fst ` {p \<in> set (zip job_ids rs).
                                          snd p = Replies SUCCEEDED \<or> snd p = Replies FAILED})
                   (polled @ [Sleep (poll_time self)]))
         \<and> terminate_calls (trace_of (monitor_cycle be self TIMEOUT job_ids done_jobs w)) =
             terminate_calls w
             @ (if failure_rate > threshold then [HardTerminate job_ids reason] else [])
         \<and> \<bar>failure_rate - of_nat nF / of_nat (nS + nF + nR)\<bar> \<le> 1 / 2 ^ 53
         \<and> (0 \<le> success_rate self \<and> success_rate self \<le> 1 \<longrightarrow>
              \<bar>threshold - (1 - success_rate self)\<bar> \<le> 1 / 2 ^ 52)"
proof -
  have t: "assert_timeout be TIMEOUT job_ids w = Returned () (w @ [Now, Now, Now])"
    using deadline by (rule assert_timeout_ok)
  have p: "poll_jobs be job_ids [] done_jobs (w @ [Now, Now, Now]) =
             Returned (tally [] rs, done_jobs \<union> finished job_ids rs) polled"
    using poll_jobs_eq [OF replies [unfolded rs_def]] by (simp add: rs_def polled_def)
  have ne: "tally [] rs \<noteq> []"
    using nonempty by (simp add: tally_Nil_iff nS_def nF_def nR_def)
  have tot: "stats_total (tally [] rs) = nS + nF + nR"
    by (simp add: stats_total_tally nS_def nF_def nR_def)
  have f: "stats_get (tally [] rs) FAILED = nF"
    by (simp add: stats_get_tally nF_def)
  have a: "assert_success self job_ids (tally [] rs) polled =
             (if failure_rate > threshold
              then Raised (BatchJobException reason) (polled @ [HardTerminate job_ids reason])
              else Returned () polled)"
    using nonempty
    by (simp add: assert_success_def tot f Let_def hard_terminate_def failure_rate_def
        threshold_def reason_def not_le)
  have c: "monitor_cycle be self TIMEOUT job_ids done_jobs w =
           (if failure_rate > threshold
            then Raised (BatchJobException reason) (polled @ [HardTerminate job_ids reason])
            else Returned
                   (done_jobs \<union> fst ` {p \<in> set (zip job_ids rs).
                                          snd p = Replies SUCCEEDED \<or> snd p = Replies FAILED})
                   (polled @ [Sleep (poll_time self)]))"
    by (simp add: monitor_cycle_def t p ne a finished_zip)
  have q: "terminate_calls polled = terminate_calls w"
    by (simp add: polled_def terminate_calls_append) (simp add: terminate_calls_def)
  have tc: "terminate_calls (trace_of (monitor_cycle be self TIMEOUT job_ids done_jobs w)) =
          terminate_calls w
          @ (if failure_rate > threshold then [HardTerminate job_ids reason] else [])"
    unfolding c by (simp add: terminate_calls_append q) (simp add: terminate_calls_def)
  let ?x = "(of_nat nF :: rat) / of_nat (nS + nF + nR)"
  have le: "(of_nat nF :: rat) \<le> of_nat (nS + nF + nR)"
    by (simp only: of_nat_le_iff)
  from nonempty have pos: "(0 :: rat) < of_nat (nS + nF + nR)"
    by (simp only: of_nat_0_less_iff)
  have "0 \<le> ?x" by (simp del: of_nat_add)
  moreover from le pos have "?x \<le> 1" by (simp only: divide_le_eq_1_pos)
  ultimately have "\<bar>float_round ?x - ?x\<bar> \<le> 1 / 2 ^ 53" by (rule float_round_unit(2))
  then have near: "\<bar>failure_rate - ?x\<bar> \<le> 1 / 2 ^ 53"
    by (simp add: failure_rate_def int_truediv_def)
  have "0 \<le> success_rate self \<and> success_rate self \<le> 1 \<longrightarrow>
          \<bar>threshold - (1 - success_rate self)\<bar> \<le> 1 / 2 ^ 52"
    unfolding threshold_def using threshold_near [of "success_rate self"] by blast
  with c tc near show ?thesis by blast
qed

theorem failure_rate_breaker_witness:
  "time_at be_letter ([] @ [Now, Now]) < 1
   \<and> pass_replies be_letter ([] @ [Now, Now, Now]) (handles ''f'' 2 @ handles ''r'' 18) =
       replicate 2 (Replies FAILED) @ replicate 18 (Replies RUNNING)
   \<and> monitor_cycle be_letter task0 1 (handles ''f'' 2 @ handles ''r'' 18) {} [] =
       Raised (BatchJobException ''Exiting due to high failure rate: 10%'')
         ([Now, Now, Now] @ map GetJobStatus (handles ''f'' 2 @ handles ''r'' 18)
          @ [HardTerminate (handles ''f'' 2 @ handles ''r'' 18)
               ''Exiting due to high failure rate: 10%''])
   \<and> \<bar>int_truediv 2 20 - 2 / 20\<bar> \<le> 1 / 2 ^ 53"
proof -
  let ?ids = "handles ''f'' 2 @ handles ''r'' 18"
  have d: "time_at be_letter ([] @ [Now, Now]) < 1" by (simp add: be_letter_def)
  have r: "pass_replies be_letter ([] @ [Now, Now, Now]) ?ids =
             replicate 2 (Replies FAILED) @ replicate 18 (Replies RUNNING)"
    by code_simp
  have a: "list_all (\<lambda>r. \<exists>s. r = Replies s) (pass_replies be_letter ([] @ [Now, Now, Now]) ?ids)"
    by (rule pass_replies_answered) (simp add: be_letter_def)
  have n: "0 < count_list (pass_replies be_letter ([] @ [Now, Now, Now]) ?ids) (Replies SUCCEEDED)
             + count_list (pass_replies be_letter ([] @ [Now, Now, Now]) ?ids) (Replies FAILED)
             + count_list (pass_replies be_letter ([] @ [Now, Now, Now]) ?ids) (Replies RUNNING)"
    by code_simp
  have c: "count_list (pass_replies be_letter ([] @ [Now, Now, Now]) ?ids) (Replies SUCCEEDED) = 0"
    "count_list (pass_replies be_letter ([] @ [Now, Now, Now]) ?ids) (Replies FAILED) = 2"
    "count_list (pass_replies be_letter ([] @ [Now, Now, Now]) ?ids) (Replies RUNNING) = 18"
    by code_simp+
  have e: "monitor_cycle be_letter task0 1 ?ids {} [] =
       Raised (BatchJobException ''Exiting due to high failure rate: 10%'')
         ([Now, Now, Now] @ map GetJobStatus ?ids
          @ [HardTerminate ?ids ''Exiting due to high failure rate: 10%''])"
    by code_simp
  from failure_rate_breaker [OF d a n, of task0 "{}"]
  have "\<bar>int_truediv (int 2) (int (0 + 2 + 18)) - of_nat 2 / of_nat (0 + 2 + 18)\<bar> \<le> 1 / 2 ^ 53"
    unfolding c by blast
  then have "\<bar>int_truediv 2 20 - 2 / 20\<bar> \<le> 1 / 2 ^ 53" by simp
  with d r e show ?thesis by blast
qed

text \<open>
  C1, as the spec states it, fails, for the arithmetic is that of floats. With 29 of 50
  jobs failed the rate is 58 per cent, and the reason says 57. With a success rate of
  \<^verbatim>\<open>0.8\<close> and one of five jobs failed, the rate does not exceed \<open>1 - 0.8\<close>, and the
  breaker trips. With the success rate the float \<^verbatim>\<open>0.4\<close>, whose value is
  \<open>3602879701896397 / 2 ^ 53\<close>, and three of five jobs failed, the rate exceeds one
  minus that value, and the breaker does not trip.
\<close>

theorem breaker_arithmetic_is_floating_point:
  "count_list (pass_replies be_letter [Now, Now, Now] (handles ''f'' 29 @ handles ''s'' 21))
      (Replies FAILED) = 29
   \<and> length (handles ''f'' 29 @ handles ''s'' 21) = 50
   \<and> (29 :: rat) / 50 * 100 = 58
   \<and> monitor_cycle be_letter (task0\<lparr>success_rate := 1 / 2\<rparr>) 1
         (handles ''f'' 29 @ handles ''s'' 21) {} [] =
       Raised (BatchJobException ''Exiting due to high failure rate: 57%'')
         ([Now, Now, Now] @ map GetJobStatus (handles ''f'' 29 @ handles ''s'' 21)
          @ [HardTerminate (handles ''f'' 29 @ handles ''s'' 21)
               ''Exiting due to high failure rate: 57%''])
   \<and> (1 :: rat) / 5 \<le> 1 - 8 / 10
   \<and> monitor_cycle be_letter (task0\<lparr>success_rate := 8 / 10\<rparr>) 1
         (handles ''f'' 1 @ handles ''s'' 4) {} [] =
       Raised (BatchJobException ''Exiting due to high failure rate: 20%'')
         ([Now, Now, Now] @ map GetJobStatus (handles ''f'' 1 @ handles ''s'' 4)
          @ [HardTerminate (handles ''f'' 1 @ handles ''s'' 4)
               ''Exiting due to high failure rate: 20%''])
   \<and> (3 :: rat) / 5 > 1 - 3602879701896397 / 2 ^ 53
   \<and> monitor_cycle be_letter (task0\<lparr>success_rate := 3602879701896397 / 2 ^ 53\<rparr>) 1
         (handles ''f'' 3 @ handles ''s'' 2) {} [] =
       Returned (set (handles ''f'' 3 @ handles ''s'' 2))
         ([Now, Now, Now] @ map GetJobStatus (handles ''f'' 3 @ handles ''s'' 2)
          @ [Sleep 60])"
  by code_simp

subsection \<open>What one pass queries and records\<close>

lemma stats_incr_keys: "fst ` set (stats_incr st k) = insert k (fst ` set st)"
  by (induction st k rule: stats_incr.induct) auto

lemma tally_keys: "fst ` set (tally st rs) \<subseteq> fst ` set st \<union> {SUCCEEDED, FAILED, RUNNING}"
  by (induction st rs rule: tally.induct) (auto simp: stats_incr_keys)

text \<open>
  C3, as the code has it. One pass of the monitoring cycle queries every handle of the
  list, in order, whether or not it is already among the done jobs. When every query is
  answered: a handle whose answer is \<open>SUCCEEDED\<close> or \<open>FAILED\<close> joins the done jobs and
  counts in the tally, an answer \<open>RUNNING\<close> counts in the tally only, and any other
  answer is neither tallied nor marks the handle done.
\<close>

theorem poll_classifies_every_handle:
  fixes be :: backend and w :: world and job_ids :: "job_id list"
  defines "rs \<equiv> pass_replies be w job_ids"
  assumes replies: "list_all (\<lambda>r. \<exists>s. r = Replies s) rs"
  shows "\<exists>stats'.
           poll_jobs be job_ids [] done_jobs w =
             Returned
               (stats',
                done_jobs \<union> fst ` {p \<in> set (zip job_ids rs).
                                       snd p = Replies SUCCEEDED \<or> snd p = Replies FAILED})
               (w @ map GetJobStatus job_ids)
           \<and> fst ` set stats' \<subseteq> {SUCCEEDED, FAILED, RUNNING}
           \<and> stats_get stats' SUCCEEDED = count_list rs (Replies SUCCEEDED)
           \<and> stats_get stats' FAILED = count_list rs (Replies FAILED)
           \<and> stats_get stats' RUNNING = count_list rs (Replies RUNNING)"
proof (intro exI conjI)
  show "poll_jobs be job_ids [] done_jobs w =
          Returned
            (tally [] rs,
             done_jobs \<union> fst ` {p \<in> set (zip job_ids rs).
                                    snd p = Replies SUCCEEDED \<or> snd p = Replies FAILED})
            (w @ map GetJobStatus job_ids)"
    using poll_jobs_eq [OF replies [unfolded rs_def]] by (simp add: rs_def finished_zip)
  show "fst ` set (tally [] rs) \<subseteq> {SUCCEEDED, FAILED, RUNNING}"
    using tally_keys [of "[]" rs] by simp
  show "stats_get (tally [] rs) SUCCEEDED = count_list rs (Replies SUCCEEDED)"
    by (simp add: stats_get_tally)
  show "stats_get (tally [] rs) FAILED = count_list rs (Replies FAILED)"
    by (simp add: stats_get_tally)
  show "stats_get (tally [] rs) RUNNING = count_list rs (Replies RUNNING)"
    by (simp add: stats_get_tally)
qed

theorem poll_classifies_every_handle_witness:
  "pass_replies be_mixed [] [''s'', ''f'', ''r'', ''q''] =
     [Replies SUCCEEDED, Replies FAILED, Replies RUNNING, Replies ''RUNNABLE'']
   \<and> poll_jobs be_mixed [''s'', ''f'', ''r'', ''q''] [] {''s''} [] =
       Returned ([(SUCCEEDED, 1), (FAILED, 1), (RUNNING, 1)], {''s'', ''f''})
         [GetJobStatus ''s'', GetJobStatus ''f'', GetJobStatus ''r'', GetJobStatus ''q'']"
proof -
  have h: "pass_replies be_mixed [] [''s'', ''f'', ''r'', ''q''] =
     [Replies SUCCEEDED, Replies FAILED, Replies RUNNING, Replies ''RUNNABLE'']"
    by (simp add: be_mixed_def)
  have e: "poll_jobs be_mixed [''s'', ''f'', ''r'', ''q''] [] {''s''} [] =
       Returned ([(SUCCEEDED, 1), (FAILED, 1), (RUNNING, 1)], {''s'', ''f''})
         [GetJobStatus ''s'', GetJobStatus ''f'', GetJobStatus ''r'', GetJobStatus ''q'']"
    by (simp add: be_mixed_def SUCCEEDED_def FAILED_def RUNNING_def insert_commute)
  have t: "\<exists>stats'.
           poll_jobs be_mixed [''s'', ''f'', ''r'', ''q''] [] {''s''} [] =
             Returned
               (stats',
                {''s''} \<union> fst ` {p \<in> set (zip [''s'', ''f'', ''r'', ''q'']
                                           (pass_replies be_mixed [] [''s'', ''f'', ''r'', ''q''])).
                                   snd p = Replies SUCCEEDED \<or> snd p = Replies FAILED})
               ([] @ map GetJobStatus [''s'', ''f'', ''r'', ''q''])
           \<and> fst ` set stats' \<subseteq> {SUCCEEDED, FAILED, RUNNING}
           \<and> stats_get stats' SUCCEEDED =
               count_list (pass_replies be_mixed [] [''s'', ''f'', ''r'', ''q'']) (Replies SUCCEEDED)
           \<and> stats_get stats' FAILED =
               count_list (pass_replies be_mixed [] [''s'', ''f'', ''r'', ''q'']) (Replies FAILED)
           \<and> stats_get stats' RUNNING =
               count_list (pass_replies be_mixed [] [''s'', ''f'', ''r'', ''q'']) (Replies RUNNING)"
    by (rule poll_classifies_every_handle) (simp add: be_mixed_def)
  from t h e show ?thesis by blast
qed

text \<open>
  C3, as the spec states it, fails: \<open>s\<close> has succeeded in the first cycle and is among the
  done jobs; the second cycle queries it again (and tallies it again).
\<close>

theorem done_handles_are_queried_again:
  "monitor_cycle be_mixed task0 1 [''s'', ''r''] {} [] =
     Returned {''s''} [Now, Now, Now, GetJobStatus ''s'', GetJobStatus ''r'', Sleep 60]
   \<and> monitor_cycle be_mixed task0 1 [''s'', ''r''] {''s''}
         [Now, Now, Now, GetJobStatus ''s'', GetJobStatus ''r'', Sleep 60] =
       Returned {''s''}
         [Now, Now, Now, GetJobStatus ''s'', GetJobStatus ''r'', Sleep 60,
          Now, Now, Now, GetJobStatus ''s'', GetJobStatus ''r'', Sleep 60]"
  by (simp add: monitor_cycle_def assert_timeout_def assert_success_def stats_total_def
      be_mixed_def task0_def SUCCEEDED_def FAILED_def RUNNING_def threshold_nonneg)

subsection \<open>A status query that fails\<close>

lemma poll_jobs_raise:
  "i < length js \<Longrightarrow> pass_replies be w js ! i = Raises e \<Longrightarrow>
   list_all (\<lambda>r. \<exists>s. r = Replies s) (take i (pass_replies be w js)) \<Longrightarrow>
   poll_jobs be js st d w = Raised e (w @ map GetJobStatus (take (Suc i) js))"
proof (induction js arbitrary: i st d w)
  case Nil
  then show ?case by simp
next
  case (Cons j js)
  show ?case
  proof (cases i)
    case 0
    with Cons.prems show ?thesis by simp
  next
    case (Suc k)
    with Cons.prems obtain s where s: "get_job_status be w j = Replies s" by auto
    from Cons.prems Suc have
      "k < length js" "pass_replies be (w @ [GetJobStatus j]) js ! k = Raises e"
      "list_all (\<lambda>r. \<exists>s. r = Replies s) (take k (pass_replies be (w @ [GetJobStatus j]) js))"
      by simp_all
    from Cons.IH [OF this] s Suc show ?thesis by simp
  qed
qed


text \<open>
  C4, as the code has it. A status query that raises is not caught anywhere in the
  monitoring loop: the cycle stops at that query and raises the same exception, the loop
  and the whole of the monitoring end with it, and the handles after it are not queried.
  Nothing is recorded for the handle: up to the raise the history holds the deadline
  check and the queries only, so that the job is not classified as failed and no
  termination is issued.
\<close>

theorem status_query_failure_propagates:
  fixes be :: backend and w :: world and job_ids :: "job_id list" and i :: nat
  defines "rs \<equiv> pass_replies be (w @ [Now, Now, Now]) job_ids"
  defines "raised \<equiv> w @ [Now, Now, Now] @ map GetJobStatus (take (Suc i) job_ids)"
  assumes deadline: "time_at be (w @ [Now, Now]) < TIMEOUT"
    and pending: "0 < int (length job_ids) - int (card done_jobs)"
    and i: "i < length job_ids"
    and fails: "rs ! i = Raises e"
    and before: "list_all (\<lambda>r. \<exists>s. r = Replies s) (take i rs)"
  shows "monitor_cycle be self TIMEOUT job_ids done_jobs w = Raised e raised
         \<and> monitor_loop be self TIMEOUT job_ids done_jobs w = Some (Raised e raised)
         \<and> (done_jobs = {} \<longrightarrow>
              monitor_batch_jobs be self TIMEOUT job_ids w = Some (Raised e raised))"
proof -
  have t: "assert_timeout be TIMEOUT job_ids w = Returned () (w @ [Now, Now, Now])"
    using deadline by (rule assert_timeout_ok)
  have p: "poll_jobs be job_ids [] done_jobs (w @ [Now, Now, Now]) = Raised e raised"
    using poll_jobs_raise [OF i fails [unfolded rs_def] before [unfolded rs_def]]
    by (simp add: raised_def)
  have c: "monitor_cycle be self TIMEOUT job_ids done_jobs w = Raised e raised"
    by (simp add: monitor_cycle_def t p)
  have l: "monitor_loop be self TIMEOUT job_ids done_jobs w = Some (Raised e raised)"
    using pending by (subst monitor_loop.simps) (simp add: c)
  from c l show ?thesis by (auto simp: monitor_batch_jobs_def)
qed

theorem status_query_failure_propagates_witness:
  "time_at be_flaky ([] @ [Now, Now]) < 1
   \<and> 0 < int (length [''r'', ''x'', ''s'']) - int (card ({} :: job_id set))
   \<and> pass_replies be_flaky [Now, Now, Now] [''r'', ''x'', ''s''] ! 1 =
       Raises (StatusQueryError ''HTTP 500'')
   \<and> take 1 (pass_replies be_flaky [Now, Now, Now] [''r'', ''x'', ''s'']) = [Replies SUCCEEDED]
   \<and> monitor_cycle be_flaky task0 1 [''r'', ''x'', ''s''] {} [] =
       Raised (StatusQueryError ''HTTP 500'')
         [Now, Now, Now, GetJobStatus ''r'', GetJobStatus ''x'']
   \<and> monitor_loop be_flaky task0 1 [''r'', ''x'', ''s''] {} [] =
       Some (Raised (StatusQueryError ''HTTP 500'')
         [Now, Now, Now, GetJobStatus ''r'', GetJobStatus ''x''])"
  using status_query_failure_propagates
          [of be_flaky "[]" 1 "[''r'', ''x'', ''s'']" "{}" 1 "StatusQueryError ''HTTP 500''" task0]
  by (simp add: be_flaky_def)

text \<open>
  C4, as the spec states it, fails: the query for \<open>x\<close> fails once, in the first cycle;
  asked again a cycle later the service would answer \<open>SUCCEEDED\<close>; but the run has
  ended with the exception of the first query, and \<open>s\<close> was never queried.
\<close>

theorem status_query_failure_aborts_run:
  "monitor_batch_jobs be_flaky task0 1 [''r'', ''x'', ''s''] [] =
     Some (Raised (StatusQueryError ''HTTP 500'')
       [Now, Now, Now, GetJobStatus ''r'', GetJobStatus ''x''])
   \<and> get_job_status be_flaky
         [Now, Now, Now, GetJobStatus ''r'', GetJobStatus ''x'', Sleep 60,
          Now, Now, Now, GetJobStatus ''r''] ''x'' = Replies SUCCEEDED"
  by (simp add: monitor_batch_jobs_def monitor_loop.simps monitor_cycle_def assert_timeout_def
      be_flaky_def)

subsection \<open>The done jobs\<close>

lemma poll_jobs_done:
  "poll_jobs be js st d w = Returned (st', d') w' \<Longrightarrow> d \<subseteq> d' \<and> d' \<subseteq> d \<union> set js"
proof (induction js arbitrary: st d w)
  case Nil
  then show ?case by simp
next
  case (Cons j js)
  from Cons.prems obtain s where s: "get_job_status be w j = Replies s"
    by (cases "get_job_status be w j") auto
  consider (other) "s \<notin> {SUCCEEDED, FAILED, RUNNING}" | (running) "s = RUNNING"
    | (final) "s = SUCCEEDED \<or> s = FAILED" by auto
  then show ?case
  proof cases
    case other
    with Cons.prems s have "poll_jobs be js st d (w @ [GetJobStatus j]) = Returned (st', d') w'"
      by simp
    from Cons.IH [OF this] show ?thesis by auto
  next
    case running
    with Cons.prems s
    have "poll_jobs be js (stats_incr st s) d (w @ [GetJobStatus j]) = Returned (st', d') w'"
      by simp
    from Cons.IH [OF this] show ?thesis by auto
  next
    case final
    with Cons.prems s
    have "poll_jobs be js (stats_incr st s) (insert j d) (w @ [GetJobStatus j])
            = Returned (st', d') w'"
      by auto
    from Cons.IH [OF this] show ?thesis by auto
  qed
qed

lemma monitor_cycle_done:
  assumes "monitor_cycle be self T ids d w = Returned d' w'"
  shows "d \<subseteq> d' \<and> d' \<subseteq> d \<union> set ids"
proof -
  from assms obtain st w1 w2 where "poll_jobs be ids [] d w1 = Returned (st, d') w2"
    by (auto simp: monitor_cycle_def split: outcome.splits prod.splits if_splits)
  then show ?thesis by (rule poll_jobs_done)
qed

lemma monitor_visits_subset:
  "monitor_visits be self T ids w0 d w \<Longrightarrow> d \<subseteq> set ids"
proof (induction rule: monitor_visits.induct)
  case start
  show ?case by simp
next
  case (cycle d w d' w')
  from monitor_cycle_done [OF cycle.hyps(3)] cycle.IH show ?case by auto
qed

lemma monitor_loop_visits:
  assumes "monitor_loop be self T ids {} w0 = Some (Returned d w)"
  shows "monitor_visits be self T ids w0 d w"
proof -
  have "(\<exists>d' w'. Returned d w = Returned d' w' \<and> monitor_visits be self T ids w0 d' w'
           \<and> \<not> 0 < int (length ids) - int (card d'))
      \<or> (\<exists>d0 w0' e w'. monitor_visits be self T ids w0 d0 w0'
           \<and> 0 < int (length ids) - int (card d0)
           \<and> monitor_cycle be self T ids d0 w0' = Raised e w' \<and> Returned d w = Raised e w')"
    by (rule monitor_loop_rule [OF assms]) (rule monitor_visits.start, rule monitor_visits.cycle)
  then show ?thesis by auto
qed

text \<open>
  C8. In every state the monitoring loop visits, the done jobs are handles of the job
  list; and a cycle from such a state only adds to them: what was done stays done, and
  what is added is a handle of the job list.
\<close>

theorem done_jobs_grow_within_job_ids:
  assumes "monitor_visits be self TIMEOUT job_ids w0 done_jobs w"
  shows "done_jobs \<subseteq> set job_ids
         \<and> (\<forall>done_jobs' w'.
               monitor_cycle be self TIMEOUT job_ids done_jobs w = Returned done_jobs' w' \<longrightarrow>
               done_jobs \<subseteq> done_jobs' \<and> done_jobs' \<subseteq> set job_ids)"
  using monitor_visits_subset [OF assms] monitor_cycle_done [of be self TIMEOUT job_ids done_jobs w]
  by blast

theorem done_jobs_grow_within_job_ids_witness:
  "monitor_visits be_mixed task0 1 [''s'', ''r''] [] {''s''}
     [Now, Now, Now, GetJobStatus ''s'', GetJobStatus ''r'', Sleep 60]
   \<and> {''s''} \<subseteq> set [''s'', ''r'']
   \<and> monitor_cycle be_mixed task0 1 [''s'', ''r''] {''s''}
         [Now, Now, Now, GetJobStatus ''s'', GetJobStatus ''r'', Sleep 60] =
       Returned {''s''}
         [Now, Now, Now, GetJobStatus ''s'', GetJobStatus ''r'', Sleep 60,
          Now, Now, Now, GetJobStatus ''s'', GetJobStatus ''r'', Sleep 60]"
proof -
  have c1: "monitor_cycle be_mixed task0 1 [''s'', ''r''] {} [] =
     Returned {''s''} [Now, Now, Now, GetJobStatus ''s'', GetJobStatus ''r'', Sleep 60]"
    by (simp add: monitor_cycle_def assert_timeout_def assert_success_def stats_total_def
      be_mixed_def task0_def SUCCEEDED_def FAILED_def RUNNING_def threshold_nonneg)
  have c2: "monitor_cycle be_mixed task0 1 [''s'', ''r''] {''s''}
         [Now, Now, Now, GetJobStatus ''s'', GetJobStatus ''r'', Sleep 60] =
       Returned {''s''}
         [Now, Now, Now, GetJobStatus ''s'', GetJobStatus ''r'', Sleep 60,
          Now, Now, Now, GetJobStatus ''s'', GetJobStatus ''r'', Sleep 60]"
    by (simp add: monitor_cycle_def assert_timeout_def assert_success_def stats_total_def
      be_mixed_def task0_def SUCCEEDED_def FAILED_def RUNNING_def threshold_nonneg)
  have v: "monitor_visits be_mixed task0 1 [''s'', ''r''] [] {''s''}
     [Now, Now, Now, GetJobStatus ''s'', GetJobStatus ''r'', Sleep 60]"
    by (rule monitor_visits.cycle [OF monitor_visits.start _ c1]) simp
  from done_jobs_grow_within_job_ids [OF v] v c2 show ?thesis by simp
qed

subsection \<open>The last check of status\<close>

lemma last_poll_trace:
  "\<exists>es. trace_of (last_poll be js st u w) = w @ es
      \<and> (list_all answered (answers be w es) \<longrightarrow>
           map fst (answers be w es) = js
         \<and> terminated es =
             map (\<lambda>a. (fst a, ''Jobs should no longer be running''))
               (filter anomaly (answers be w es))
         \<and> (\<exists>st'. last_poll be js st u w =
               Returned (st', u \<or> filter anomaly (answers be w es) \<noteq> []) (w @ es)))"
proof (induction js arbitrary: st u w)
  case Nil
  show ?case by (rule exI [of _ "[]"]) simp
next
  case (Cons j js)
  show ?case
  proof (cases "get_job_status be w j")
    case (Raises e)
    show ?thesis
      by (rule exI [of _ "[GetJobStatus j]"]) (simp add: Raises answered_def)
  next
    case (Replies s)
    show ?thesis
    proof (cases "s = SUCCEEDED \<or> s = FAILED")
      case True
      from Cons.IH [of "stats_incr st s" u "w @ [GetJobStatus j]"]
      obtain es where es: "trace_of (last_poll be js (stats_incr st s) u (w @ [GetJobStatus j]))
            = (w @ [GetJobStatus j]) @ es"
        and rest: "list_all answered (answers be (w @ [GetJobStatus j]) es) \<longrightarrow>
           map fst (answers be (w @ [GetJobStatus j]) es) = js
         \<and> terminated es =
             map (\<lambda>a. (fst a, ''Jobs should no longer be running''))
               (filter anomaly (answers be (w @ [GetJobStatus j]) es))
         \<and> (\<exists>st'. last_poll be js (stats_incr st s) u (w @ [GetJobStatus j]) =
               Returned (st', u \<or> filter anomaly (answers be (w @ [GetJobStatus j]) es) \<noteq> [])
                 ((w @ [GetJobStatus j]) @ es))"
        by blast
      have lp: "last_poll be (j # js) st u w =
                  last_poll be js (stats_incr st s) u (w @ [GetJobStatus j])"
        using Replies True by auto
      have na: "\<not> anomaly (j, Replies s)" using True by (auto simp: anomaly_def)
      show ?thesis
        unfolding lp
        by (rule exI [of _ "GetJobStatus j # es"])
           (use es rest in \<open>simp add: Replies na\<close>)
    next
      case False
      let ?w' = "w @ [GetJobStatus j, TerminateJob j ''Jobs should no longer be running'']"
      from Cons.IH [of st True ?w']
      obtain es where es: "trace_of (last_poll be js st True ?w') = ?w' @ es"
        and rest: "list_all answered (answers be ?w' es) \<longrightarrow>
           map fst (answers be ?w' es) = js
         \<and> terminated es =
             map (\<lambda>a. (fst a, ''Jobs should no longer be running''))
               (filter anomaly (answers be ?w' es))
         \<and> (\<exists>st'. last_poll be js st True ?w' =
               Returned (st', True \<or> filter anomaly (answers be ?w' es) \<noteq> []) (?w' @ es))"
        by blast
      have lp: "last_poll be (j # js) st u w = last_poll be js st True ?w'"
        using Replies False by (simp add: terminate_job_def)
      have an: "anomaly (j, Replies s)" using False by (auto simp: anomaly_def)
      show ?thesis
        unfolding lp
        by (rule exI [of _ "GetJobStatus j # TerminateJob j ''Jobs should no longer be running'' # es"])
           (use es rest in \<open>simp add: Replies an\<close>)
    qed
  qed
qed


lemma answers_append:
  "answers be h (es @ es') = answers be h es @ answers be (h @ es) es'"
  by (induction be h es rule: answers.induct) simp_all

lemma terminated_append: "terminated (es @ es') = terminated es @ terminated es'"
  by (induction es rule: terminated.induct) simp_all

lemma assert_success_trace:
  "\<exists>extra. trace_of (assert_success self ids st w) = w @ extra
      \<and> answers be w' extra = [] \<and> terminated extra = []
      \<and> assert_success self ids st w \<noteq>
            Raised (BatchJobException ''Jobs should no longer be running'') (w @ extra)"
proof (cases "assert_success self ids st w")
  case (Returned u w1)
  then have "w1 = w" by (auto simp: assert_success_def Let_def hard_terminate_def split: if_splits)
  with Returned show ?thesis by (intro exI [of _ "[]"]) simp
next
  case (Raised e w1)
  then consider "e = ZeroDivisionError" "w1 = w"
    | r where "e = BatchJobException (''Exiting due to high failure rate: '' @ r)"
        "w1 = w @ [HardTerminate ids (''Exiting due to high failure rate: '' @ r)]"
    by (auto simp: assert_success_def Let_def hard_terminate_def split: if_splits)
  then show ?thesis
  proof cases
    case 1
    with Raised show ?thesis by (intro exI [of _ "[]"]) simp
  next
    case 2
    with Raised show ?thesis
      by (intro exI [of _ "[HardTerminate ids (''Exiting due to high failure rate: '' @ r)]"]) simp
  qed
qed

text \<open>
  C7. The last check, which follows the normal exit of the monitoring loop, queries every
  handle of the job list once more, in order. When each of these queries is answered:
  the handles terminated (one termination each, with the reason of the last check) are
  exactly those whose answer is neither \<open>SUCCEEDED\<close> nor \<open>FAILED\<close>; if there is such a
  handle the check, and with it the monitoring, raises the exception of the unexplained
  jobs; if there is none, that exception is not raised.
\<close>

theorem last_check_unexplained_jobs:
  fixes be :: backend and self :: task and job_ids :: "job_id list" and w :: world
  defines "out \<equiv> last_check be self job_ids w"
  defines "new \<equiv> drop (length w) (trace_of out)"
  defines "asked \<equiv> answers be w new"
  assumes answered: "list_all answered asked"
  shows "trace_of out = w @ new
         \<and> map fst asked = job_ids
         \<and> terminated new =
             map (\<lambda>a. (fst a, ''Jobs should no longer be running'')) (filter anomaly asked)
         \<and> (filter anomaly asked \<noteq> [] \<longrightarrow>
              out = Raised (BatchJobException ''Jobs should no longer be running'') (w @ new))
         \<and> (filter anomaly asked = [] \<longrightarrow>
              out \<noteq> Raised (BatchJobException ''Jobs should no longer be running'') (w @ new))
         \<and> (monitor_loop be self TIMEOUT job_ids {} w0 = Some (Returned done_jobs w) \<longrightarrow>
              monitor_batch_jobs be self TIMEOUT job_ids w0 = Some out)"
proof -
  from last_poll_trace [of be job_ids "[]" False w]
  obtain es where es: "trace_of (last_poll be job_ids [] False w) = w @ es"
    and rest: "list_all answered (answers be w es) \<longrightarrow>
           map fst (answers be w es) = job_ids
         \<and> terminated es =
             map (\<lambda>a. (fst a, ''Jobs should no longer be running''))
               (filter anomaly (answers be w es))
         \<and> (\<exists>st'. last_poll be job_ids [] False w =
               Returned (st', False \<or> filter anomaly (answers be w es) \<noteq> []) (w @ es))"
    by blast
  have shape: "\<exists>extra. trace_of out = w @ es @ extra \<and> answers be (w @ es) extra = []
                 \<and> terminated extra = []
                 \<and> (\<forall>st. last_poll be job_ids [] False w = Returned (st, False) (w @ es) \<longrightarrow>
                       out \<noteq> Raised (BatchJobException ''Jobs should no longer be running'')
                               (w @ es @ extra))"
  proof (cases "last_poll be job_ids [] False w")
    case (Raised e w1)
    with es show ?thesis by (intro exI [of _ "[]"]) (simp add: out_def last_check_def)
  next
    case (Returned p w1)
    obtain st u where p: "p = (st, u)" by (cases p)
    from Returned es have w1: "w1 = w @ es" by simp
    show ?thesis
    proof (cases "u \<or> st = []")
      case True
      with Returned p w1 show ?thesis
        by (intro exI [of _ "[]"]) (auto simp: out_def last_check_def)
    next
      case False
      with Returned p w1 have o: "out = assert_success self job_ids st (w @ es)"
        by (simp add: out_def last_check_def)
      from assert_success_trace [of self job_ids st "w @ es" be "w @ es"]
      show ?thesis unfolding o by auto
    qed
  qed
  then obtain extra where tr: "trace_of out = w @ es @ extra"
    and a0: "answers be (w @ es) extra = []" and t0: "terminated extra = []"
    and ne: "\<forall>st. last_poll be job_ids [] False w = Returned (st, False) (w @ es) \<longrightarrow>
                out \<noteq> Raised (BatchJobException ''Jobs should no longer be running'')
                        (w @ es @ extra)"
    by blast
  have new: "new = es @ extra" by (simp add: new_def tr)
  have asked: "asked = answers be w es" by (simp add: asked_def new answers_append a0)
  from answered rest asked obtain st' where
    q: "map fst asked = job_ids"
    and t: "terminated es =
             map (\<lambda>a. (fst a, ''Jobs should no longer be running'')) (filter anomaly asked)"
    and lp: "last_poll be job_ids [] False w = Returned (st', filter anomaly asked \<noteq> []) (w @ es)"
    by auto
  have c1: "trace_of out = w @ new" by (simp add: tr new)
  have c3: "terminated new =
             map (\<lambda>a. (fst a, ''Jobs should no longer be running'')) (filter anomaly asked)"
    by (simp add: new terminated_append t t0)
  have c4: "filter anomaly asked \<noteq> [] \<longrightarrow>
              out = Raised (BatchJobException ''Jobs should no longer be running'') (w @ new)"
  proof
    assume "filter anomaly asked \<noteq> []"
    with lp have o: "out = Raised (BatchJobException ''Jobs should no longer be running'') (w @ es)"
      by (simp add: out_def last_check_def)
    with tr have "extra = []" by simp
    with o new show "out = Raised (BatchJobException ''Jobs should no longer be running'') (w @ new)"
      by simp
  qed
  have c5: "filter anomaly asked = [] \<longrightarrow>
              out \<noteq> Raised (BatchJobException ''Jobs should no longer be running'') (w @ new)"
    using ne lp new by auto
  have c6: "monitor_loop be self TIMEOUT job_ids {} w0 = Some (Returned done_jobs w) \<longrightarrow>
              monitor_batch_jobs be self TIMEOUT job_ids w0 = Some out"
    by (simp add: monitor_batch_jobs_def out_def)
  from c1 q c3 c4 c5 c6 show ?thesis by blast
qed

theorem last_check_unexplained_jobs_witness:
  "monitor_loop be_stuck task0 1 [''a'', ''u''] {} [] =
     Some (Returned {''a'', ''u''}
       [Now, Now, Now, GetJobStatus ''a'', GetJobStatus ''u'', Sleep 60])
   \<and> answers be_stuck [Now, Now, Now, GetJobStatus ''a'', GetJobStatus ''u'', Sleep 60]
         [GetJobStatus ''a'', GetJobStatus ''u'',
          TerminateJob ''u'' ''Jobs should no longer be running''] =
       [(''a'', Replies SUCCEEDED), (''u'', Replies RUNNING)]
   \<and> last_check be_stuck task0 [''a'', ''u'']
         [Now, Now, Now, GetJobStatus ''a'', GetJobStatus ''u'', Sleep 60] =
       Raised (BatchJobException ''Jobs should no longer be running'')
         [Now, Now, Now, GetJobStatus ''a'', GetJobStatus ''u'', Sleep 60,
          GetJobStatus ''a'', GetJobStatus ''u'',
          TerminateJob ''u'' ''Jobs should no longer be running'']
   \<and> monitor_batch_jobs be_stuck task0 1 [''a'', ''u''] [] =
       Some (Raised (BatchJobException ''Jobs should no longer be running'')
         [Now, Now, Now, GetJobStatus ''a'', GetJobStatus ''u'', Sleep 60,
          GetJobStatus ''a'', GetJobStatus ''u'',
          TerminateJob ''u'' ''Jobs should no longer be running''])"
proof -
  let ?w1 = "[Now, Now, Now, GetJobStatus ''a'', GetJobStatus ''u'', Sleep 60]"
  let ?new = "[GetJobStatus ''a'', GetJobStatus ''u'',
               TerminateJob ''u'' ''Jobs should no longer be running'']"
  have l: "monitor_loop be_stuck task0 1 [''a'', ''u''] {} [] = Some (Returned {''a'', ''u''} ?w1)"
    by (simp add: monitor_loop.simps monitor_cycle_def assert_timeout_def assert_success_def
        stats_total_def be_stuck_def task0_def insert_commute threshold_nonneg)
  have c: "last_check be_stuck task0 [''a'', ''u''] ?w1 =
       Raised (BatchJobException ''Jobs should no longer be running'') (?w1 @ ?new)"
    by (simp add: last_check_def terminate_job_def be_stuck_def)
  have a: "answers be_stuck ?w1 ?new = [(''a'', Replies SUCCEEDED), (''u'', Replies RUNNING)]"
    by (simp add: be_stuck_def)
  have h: "list_all answered
             (answers be_stuck ?w1
                (drop (length ?w1) (trace_of (last_check be_stuck task0 [''a'', ''u''] ?w1))))"
    unfolding c by (simp add: answered_def be_stuck_def)
  from last_check_unexplained_jobs [OF h, of 1 "[]" "{''a'', ''u''}"] l c a
  show ?thesis by simp
qed

subsection \<open>What is submitted, and by which phase\<close>

lemma submitted_append: "submitted (es @ es') = submitted es @ submitted es'"
  by (induction es rule: submitted.induct) simp_all

lemma combined_append: "combined (es @ es') = combined es @ combined es'"
  by (induction es rule: combined.induct) simp_all

lemma monitoring_quiet:
  "list_all monitoring_event es \<Longrightarrow> submitted es = [] \<and> combined es = []"
  by (induction es rule: submitted.induct) simp_all

lemma assert_timeout_trace:
  "\<exists>es. trace_of (assert_timeout be T ids w) = w @ es \<and> list_all monitoring_event es"
  by (cases "time_at be (w @ [Now, Now]) < T")
     (simp_all add: assert_timeout_def hard_terminate_def)

lemma assert_success_monitoring:
  "\<exists>es. trace_of (assert_success self ids st w) = w @ es \<and> list_all monitoring_event es"
  by (simp add: assert_success_def Let_def hard_terminate_def)

lemma poll_jobs_trace:
  "\<exists>es. trace_of (poll_jobs be js st d w) = w @ es \<and> list_all monitoring_event es"
proof (induction js arbitrary: st d w)
  case Nil
  show ?case by simp
next
  case (Cons j js)
  show ?case
  proof (cases "get_job_status be w j")
    case (Raises e)
    then show ?thesis by simp
  next
    case (Replies s)
    obtain st' d' where
      "poll_jobs be (j # js) st d w = poll_jobs be js st' d' (w @ [GetJobStatus j])"
      using Replies by (cases "s \<notin> {SUCCEEDED, FAILED, RUNNING}"; cases "s = RUNNING") auto
    moreover from Cons.IH [of st' d' "w @ [GetJobStatus j]"]
    obtain es where "trace_of (poll_jobs be js st' d' (w @ [GetJobStatus j]))
                       = w @ GetJobStatus j # es" "list_all monitoring_event es"
      by auto
    ultimately show ?thesis by (intro exI [of _ "GetJobStatus j # es"]) simp
  qed
qed

lemma monitor_cycle_trace:
  "\<exists>es. trace_of (monitor_cycle be self T ids d w) = w @ es \<and> list_all monitoring_event es"
proof (cases "assert_timeout be T ids w")
  case (Raised e w1)
  with assert_timeout_trace [of be T ids w] show ?thesis by (simp add: monitor_cycle_def)
next
  case (Returned u w1)
  with assert_timeout_trace [of be T ids w]
  obtain es1 where w1: "w1 = w @ es1" and m1: "list_all monitoring_event es1" by auto
  from poll_jobs_trace [of be ids "[]" d w1]
  obtain es2 where p: "trace_of (poll_jobs be ids [] d w1) = w1 @ es2"
    and m2: "list_all monitoring_event es2" by auto
  show ?thesis
  proof (cases "poll_jobs be ids [] d w1")
    case R: (Raised e w2)
    with p have "w2 = w @ es1 @ es2" by (simp add: w1)
    with R Returned m1 m2 show ?thesis
      by (intro exI [of _ "es1 @ es2"]) (simp add: monitor_cycle_def)
  next
    case P: (Returned q w2)
    obtain st d' where q: "q = (st, d')" by (cases q)
    from P p have w2: "w2 = w @ es1 @ es2" by (simp add: w1)
    show ?thesis
    proof (cases "0 < length st")
      case False
      with Returned P q w2 m1 m2 show ?thesis
        by (intro exI [of _ "es1 @ es2 @ [Sleep (poll_time self)]"]) (simp add: monitor_cycle_def)
    next
      case True
      from assert_success_monitoring [of self ids st w2]
      obtain es3 where a: "trace_of (assert_success self ids st w2) = w2 @ es3"
        and m3: "list_all monitoring_event es3" by auto
      show ?thesis
      proof (cases "assert_success self ids st w2")
        case A: (Raised e w3)
        with a have "w3 = w @ es1 @ es2 @ es3" by (simp add: w2)
        with Returned P q True A m1 m2 m3 show ?thesis
          by (intro exI [of _ "es1 @ es2 @ es3"]) (simp add: monitor_cycle_def)
      next
        case A: (Returned u3 w3)
        with a have "w3 = w @ es1 @ es2 @ es3" by (simp add: w2)
        with Returned P q True A m1 m2 m3 show ?thesis
          by (intro exI [of _ "es1 @ es2 @ es3 @ [Sleep (poll_time self)]"])
             (simp add: monitor_cycle_def)
      qed
    qed
  qed
qed

lemma monitor_loop_trace:
  assumes "monitor_loop be self T ids d w = Some r"
  shows "\<exists>es. trace_of r = w @ es \<and> list_all monitoring_event es"
proof -
  let ?I = "\<lambda>(d' :: job_id set) w'. \<exists>es. w' = w @ es \<and> list_all monitoring_event es"
  have step: "?I d' w'" if "?I d0 w0" "monitor_cycle be self T ids d0 w0 = Returned d' w'"
    for d0 w0 d' w'
  proof -
    from that(1) obtain es0 where "w0 = w @ es0" "list_all monitoring_event es0" by auto
    moreover from monitor_cycle_trace [of be self T ids d0 w0] that(2)
    obtain es1 where "w' = w0 @ es1" "list_all monitoring_event es1" by auto
    ultimately show ?thesis by (intro exI [of _ "es0 @ es1"]) simp
  qed
  have "(\<exists>d' w'. r = Returned d' w' \<and> ?I d' w' \<and> \<not> 0 < int (length ids) - int (card d'))
      \<or> (\<exists>d0 w0 e w'. ?I d0 w0 \<and> 0 < int (length ids) - int (card d0)
           \<and> monitor_cycle be self T ids d0 w0 = Raised e w' \<and> r = Raised e w')"
    by (rule monitor_loop_rule [OF assms, of ?I]) (simp, rule step)
  then show ?thesis
  proof (elim disjE exE conjE)
    fix d' w' es assume "r = Returned d' w'" "w' = w @ es" "list_all monitoring_event es"
    then show ?thesis by auto
  next
    fix d0 w0 e w' es
    assume r: "r = Raised e w'" and c: "monitor_cycle be self T ids d0 w0 = Raised e w'"
      and w0: "w0 = w @ es" "list_all monitoring_event es"
    from monitor_cycle_trace [of be self T ids d0 w0] c
    obtain es1 where "w' = w0 @ es1" "list_all monitoring_event es1" by auto
    with r w0 show ?thesis by (intro exI [of _ "es @ es1"]) simp
  qed
qed


lemma last_poll_monitoring:
  "\<exists>es. trace_of (last_poll be js st u w) = w @ es \<and> list_all monitoring_event es"
proof (induction js arbitrary: st u w)
  case Nil
  show ?case by simp
next
  case (Cons j js)
  show ?case
  proof (cases "get_job_status be w j")
    case (Raises e)
    then show ?thesis by simp
  next
    case (Replies s)
    show ?thesis
    proof (cases "s \<notin> {SUCCEEDED, FAILED}")
      case True
      let ?t = "TerminateJob j ''Jobs should no longer be running''"
      from Cons.IH [of st True "w @ [GetJobStatus j, ?t]"]
      obtain es where "trace_of (last_poll be js st True (w @ [GetJobStatus j, ?t]))
                         = w @ GetJobStatus j # ?t # es" "list_all monitoring_event es"
        by auto
      with Replies True show ?thesis
        by (intro exI [of _ "GetJobStatus j # ?t # es"]) (simp add: terminate_job_def)
    next
      case False
      from Cons.IH [of "stats_incr st s" u "w @ [GetJobStatus j]"]
      obtain es where "trace_of (last_poll be js (stats_incr st s) u (w @ [GetJobStatus j]))
                         = w @ GetJobStatus j # es" "list_all monitoring_event es"
        by auto
      with Replies False show ?thesis
        by (intro exI [of _ "GetJobStatus j # es"]) auto
    qed
  qed
qed

lemma last_check_monitoring:
  "\<exists>es. trace_of (last_check be self ids w) = w @ es \<and> list_all monitoring_event es"
proof -
  from last_poll_monitoring [of be ids "[]" False w]
  obtain es1 where p: "trace_of (last_poll be ids [] False w) = w @ es1"
    and m1: "list_all monitoring_event es1" by auto
  show ?thesis
  proof (cases "last_poll be ids [] False w")
    case (Raised e w1)
    with p m1 show ?thesis by (intro exI [of _ es1]) (simp add: last_check_def)
  next
    case (Returned q w1)
    obtain st u where q: "q = (st, u)" by (cases q)
    from Returned p have w1: "w1 = w @ es1" by simp
    show ?thesis
    proof (cases "u \<or> \<not> 0 < length st")
      case True
      with Returned q w1 m1 show ?thesis
        by (intro exI [of _ es1]) (auto simp: last_check_def)
    next
      case False
      from assert_success_monitoring [of self ids st w1]
      obtain es2 where "trace_of (assert_success self ids st w1) = w1 @ es2"
        "list_all monitoring_event es2" by auto
      with False Returned q w1 m1 show ?thesis
        by (intro exI [of _ "es1 @ es2"]) (simp add: last_check_def)
    qed
  qed
qed

lemma monitor_batch_jobs_trace:
  assumes "monitor_batch_jobs be self T ids w = Some r"
  shows "\<exists>es. trace_of r = w @ es \<and> list_all monitoring_event es"
proof -
  from assms obtain r1 where l: "monitor_loop be self T ids {} w = Some r1"
    by (auto simp: monitor_batch_jobs_def split: option.splits)
  from monitor_loop_trace [OF l]
  obtain es1 where t1: "trace_of r1 = w @ es1" and m1: "list_all monitoring_event es1" by auto
  show ?thesis
  proof (cases r1)
    case (Raised e w1)
    with assms l t1 m1 show ?thesis
      by (intro exI [of _ es1]) (auto simp: monitor_batch_jobs_def)
  next
    case (Returned d w1)
    with assms l have r: "r = last_check be self ids w1" by (simp add: monitor_batch_jobs_def)
    from last_check_monitoring [of be self ids w1]
    obtain es2 where "trace_of (last_check be self ids w1) = w1 @ es2"
      "list_all monitoring_event es2" by auto
    with r Returned t1 m1 show ?thesis by (intro exI [of _ "es1 @ es2"]) simp
  qed
qed

text \<open>The submission loop.\<close>

lemma submit_jobs_trace:
  "\<exists>es n. trace_of (submit_jobs be self T a s ts i ps ids w) = w @ es
      \<and> submitted es = map (job_spec self a s ts) (take n (filter not_done ps))
      \<and> combined es = []
      \<and> (\<forall>ids' w'. submit_jobs be self T a s ts i ps ids w = Returned ids' w' \<longrightarrow>
             length ids' = length ids + length (submitted es))"
proof (induction ps arbitrary: i ids w)
  case Nil
  show ?case by (intro exI [of _ "[]"] exI [of _ 0]) simp
next
  case (Cons p ps)
  let ?w1 = "w @ [Now, Now, Now]"
  let ?spec = "job_spec self a s ts p"
  show ?case
  proof (cases "time_at be (w @ [Now, Now]) < T")
    case False
    then show ?thesis
      by (intro exI [of _ "[Now, Now, Now, HardTerminate ids
                ''Impending worker timeout, so killing live tasks'']"] exI [of _ 0])
         (simp add: assert_timeout_def hard_terminate_def)
  next
    case True
    then have t: "assert_timeout be T ids w = Returned () ?w1" by (rule assert_timeout_ok)
    show ?thesis
    proof (cases "map_of p ''done''")
      case None
      with t show ?thesis by (intro exI [of _ "[Now, Now, Now]"] exI [of _ 0]) simp
    next
      case (Some d)
      show ?thesis
      proof (cases "truthy d")
        case d: True
        then have nd: "\<not> not_done p" by (simp add: not_done_def Some)
        from Cons.IH [of "Suc i" ids ?w1]
        obtain es n where
          "trace_of (submit_jobs be self T a s ts (Suc i) ps ids ?w1) = ?w1 @ es"
          "submitted es = map (job_spec self a s ts) (take n (filter not_done ps))"
          "combined es = []"
          "\<forall>ids' w'. submit_jobs be self T a s ts (Suc i) ps ids ?w1 = Returned ids' w' \<longrightarrow>
             length ids' = length ids + length (submitted es)"
          by blast
        with t Some d nd show ?thesis
          by (intro exI [of _ "[Now, Now, Now] @ es"] exI [of _ n])
             (simp add: submitted_append combined_append)
      next
        case d: False
        then have nd: "not_done p" by (simp add: not_done_def Some)
        show ?thesis
        proof (cases "case max_runs self of None \<Rightarrow> False | Some m \<Rightarrow> m \<le> int i")
          case True
          with t Some d show ?thesis
            by (intro exI [of _ "[Now, Now, Now]"] exI [of _ 0]) simp
        next
          case mr: False
          show ?thesis
          proof (cases "submit_job be ?w1 ?spec")
            case (Raises e)
            with t Some d mr nd show ?thesis
              by (intro exI [of _ "[Now, Now, Now, SubmitJob ?spec]"] exI [of _ 1])
                 (simp add: Let_def)
          next
            case (Replies job)
            from Cons.IH [of "Suc i" "ids @ [job]" "?w1 @ [SubmitJob ?spec]"]
            obtain es n where
              "trace_of (submit_jobs be self T a s ts (Suc i) ps (ids @ [job])
                 (?w1 @ [SubmitJob ?spec])) = (?w1 @ [SubmitJob ?spec]) @ es"
              "submitted es = map (job_spec self a s ts) (take n (filter not_done ps))"
              "combined es = []"
              "\<forall>ids' w'. submit_jobs be self T a s ts (Suc i) ps (ids @ [job])
                   (?w1 @ [SubmitJob ?spec]) = Returned ids' w' \<longrightarrow>
                 length ids' = length (ids @ [job]) + length (submitted es)"
              by blast
            with t Some d mr nd Replies show ?thesis
              by (intro exI [of _ "[Now, Now, Now, SubmitJob ?spec] @ es"] exI [of _ "Suc n"])
                 (simp add: Let_def submitted_append combined_append)
          qed
        qed
      qed
    qed
  qed
qed


lemma command_line_trace: "trace_of (command_line be c v w) = w @ [CheckOutput c]"
  by (simp add: command_line_def Let_def split: reply.splits)

lemma execute_trace:
  assumes "execute be self T jp ts w = Some r"
  shows "\<exists>es a s n. trace_of r = w @ es
           \<and> submitted es = map (job_spec self a s ts) (take n (filter not_done jp))
           \<and> combined es = []"
proof -
  let ?c1 = "''aws --profile default configure get aws_access_key_id''"
  let ?c2 = "''aws --profile default configure get aws_secret_access_key''"
  show ?thesis
  proof (cases "command_line be ?c1 (test self) w")
    case (Raised e w1)
    with assms command_line_trace [of be ?c1 "test self" w] show ?thesis
      by (intro exI [of _ "[CheckOutput ?c1]"] exI [of _ 0]) (auto simp: execute_def)
  next
    case C1: (Returned a w1)
    with command_line_trace [of be ?c1 "test self" w] have w1: "w1 = w @ [CheckOutput ?c1]"
      by simp
    show ?thesis
    proof (cases "command_line be ?c2 (test self) w1")
      case (Raised e w2)
      with assms C1 w1 command_line_trace [of be ?c2 "test self" w1] show ?thesis
        by (intro exI [of _ "[CheckOutput ?c1, CheckOutput ?c2]"] exI [of _ 0])
           (auto simp: execute_def)
    next
      case C2: (Returned s w2)
      with command_line_trace [of be ?c2 "test self" w1] w1
      have w2: "w2 = w @ [CheckOutput ?c1, CheckOutput ?c2]" by simp
      from submit_jobs_trace [of be self T a s ts 0 jp "[]" w2]
      obtain es n where
        t: "trace_of (submit_jobs be self T a s ts 0 jp [] w2) = w2 @ es"
        and sub: "submitted es = map (job_spec self a s ts) (take n (filter not_done jp))"
        and com: "combined es = []"
        by blast
      show ?thesis
      proof (cases "submit_jobs be self T a s ts 0 jp [] w2")
        case (Raised e w3)
        with assms C1 C2 have "r = Raised e w3" by (simp add: execute_def)
        with Raised t w2 sub com show ?thesis
          by (intro exI [of _ "[CheckOutput ?c1, CheckOutput ?c2] @ es"] exI [of _ a]
                exI [of _ s] exI [of _ n])
             (simp add: submitted_append combined_append)
      next
        case (Returned ids w3)
        with assms C1 C2 have m: "monitor_batch_jobs be self T ids w3 = Some r"
          by (simp add: execute_def)
        from monitor_batch_jobs_trace [OF m]
        obtain es' where "trace_of r = w3 @ es'" "list_all monitoring_event es'" by auto
        with monitoring_quiet [of es'] Returned t w2 sub com show ?thesis
          by (intro exI [of _ "[CheckOutput ?c1, CheckOutput ?c2] @ es @ es'"] exI [of _ a]
                exI [of _ s] exI [of _ n])
             (simp add: submitted_append combined_append)
      qed
    qed
  qed
qed

lemma run_trace:
  fixes prepared :: "job_params list" and self :: task
  defines "jp \<equiv> (if test self then (if 2 < length prepared then take 2 prepared else prepared)
                  else prepared)"
  assumes "run be self prepared w = Some r"
  shows "\<exists>es a s ts n. trace_of r = w @ es
           \<and> submitted es = map (job_spec self a s ts) (take n (filter not_done jp))
           \<and> (combined es = [] \<or> combined es = [jp])"
proof -
  let ?c = "''nesta_prepare_batch '' @ batchable self @ '' '' @ join_str '' '' (env_files self)"
  let ?T = "time_at be w + of_int (config_timeout self)"
  show ?thesis
  proof (cases "command_line be ?c (test self) (w @ [Now])")
    case (Raised e w1)
    with command_line_trace [of be ?c "test self" "w @ [Now]"]
    have w1: "w1 = w @ [Now, CheckOutput ?c]" by simp
    from assms(2) Raised have "trace_of r = w1"
      by (auto simp: run_def Let_def split: if_splits)
    with w1 show ?thesis
      by (intro exI [of _ "[Now, CheckOutput ?c]"] exI [of _ 0]) simp
  next
    case (Returned ts w1)
    with command_line_trace [of be ?c "test self" "w @ [Now]"]
    have w1: "w1 = w @ [Now, CheckOutput ?c]" by simp
    from assms(2) Returned obtain r1 where e: "execute be self ?T jp ts w1 = Some r1"
      by (auto simp: run_def Let_def jp_def split: option.splits)
    from execute_trace [OF e]
    obtain es a s n where t: "trace_of r1 = w1 @ es"
      and sub: "submitted es = map (job_spec self a s ts) (take n (filter not_done jp))"
      and com: "combined es = []"
      by blast
    show ?thesis
    proof (cases r1)
      case (Raised e' w2)
      with assms(2) Returned e have "r = Raised e' w2"
        by (simp add: run_def Let_def jp_def)
      with Raised t w1 sub com show ?thesis
        by (intro exI [of _ "[Now, CheckOutput ?c] @ es"] exI [of _ a] exI [of _ s]
              exI [of _ ts] exI [of _ n])
           (simp add: submitted_append combined_append)
    next
      case R: (Returned u w2)
      with assms(2) Returned e have "r = Returned () (w2 @ [Combine jp])"
        by (simp add: run_def Let_def jp_def)
      with R t w1 sub com show ?thesis
        by (intro exI [of _ "[Now, CheckOutput ?c] @ es @ [Combine jp]"] exI [of _ a]
              exI [of _ s] exI [of _ ts] exI [of _ n])
           (simp add: submitted_append combined_append)
    qed
  qed
qed

lemma not_done_taken:
  "params \<in> set (take n (filter not_done job_params)) \<Longrightarrow>
   params \<in> set job_params \<and> (\<exists>d. map_of params ''done'' = Some d \<and> \<not> truthy d)"
proof -
  assume "params \<in> set (take n (filter not_done job_params))"
  then have "params \<in> set (filter not_done job_params)" by (rule in_set_takeD)
  then show ?thesis by (auto simp: not_done_def split: option.splits)
qed

subsection \<open>Done descriptors, and the cut of a test run\<close>

text \<open>
  C6. Whatever the submission loop does, the submissions it makes are, in order, for the
  first so many of the descriptors whose \<open>done\<close> is false: a descriptor whose \<open>done\<close> is
  true (or any other true value) is not among them. The loop returns one handle for each
  submission it made, and nothing after the loop submits: every submission of
  \<^verbatim>\<open>execute\<close> is one of these.
\<close>

theorem done_descriptors_never_submitted:
  "(\<exists>es n. trace_of (submit_jobs be self TIMEOUT aws_id aws_secret ts 0 job_params [] w) = w @ es
       \<and> submitted es =
           map (job_spec self aws_id aws_secret ts) (take n (filter not_done job_params))
       \<and> (\<forall>job_ids w'.
             submit_jobs be self TIMEOUT aws_id aws_secret ts 0 job_params [] w
               = Returned job_ids w' \<longrightarrow>
             length job_ids = length (submitted es)))
   \<and> (\<forall>out. execute be self TIMEOUT job_params ts w = Some out \<longrightarrow>
         (\<exists>es a s n. trace_of out = w @ es
            \<and> submitted es = map (job_spec self a s ts) (take n (filter not_done job_params))))
   \<and> (\<forall>params d n. params \<in> set (take n (filter not_done job_params)) \<longrightarrow>
         map_of params ''done'' = Some d \<longrightarrow> \<not> truthy d)"
proof (intro conjI allI impI)
  from submit_jobs_trace [of be self TIMEOUT aws_id aws_secret ts 0 job_params "[]" w]
  show "\<exists>es n. trace_of (submit_jobs be self TIMEOUT aws_id aws_secret ts 0 job_params [] w)
                  = w @ es
       \<and> submitted es =
           map (job_spec self aws_id aws_secret ts) (take n (filter not_done job_params))
       \<and> (\<forall>job_ids w'.
             submit_jobs be self TIMEOUT aws_id aws_secret ts 0 job_params [] w
               = Returned job_ids w' \<longrightarrow>
             length job_ids = length (submitted es))"
    by auto
next
  fix out assume "execute be self TIMEOUT job_params ts w = Some out"
  from execute_trace [OF this]
  show "\<exists>es a s n. trace_of out = w @ es
            \<and> submitted es = map (job_spec self a s ts) (take n (filter not_done job_params))"
    by blast
next
  fix params d n
  assume "params \<in> set (take n (filter not_done job_params))"
    and "map_of params ''done'' = Some d"
  with not_done_taken [of params n job_params] show "\<not> truthy d" by auto
qed

theorem done_descriptors_never_submitted_witness:
  "execute be_ok task0 1 descriptors3 ''ts'' [] =
     Some (Returned ()
       [CheckOutput ''aws --profile default configure get aws_access_key_id'',
        CheckOutput ''aws --profile default configure get aws_secret_access_key'',
        Now, Now, Now, Now, Now, Now,
        SubmitJob (job_spec task0 ''key'' ''key'' ''ts'' (descriptors3 ! 1)),
        Now, Now, Now,
        SubmitJob (job_spec task0 ''key'' ''key'' ''ts'' (descriptors3 ! 2)),
        Now, Now, Now, GetJobStatus ''job8'', GetJobStatus ''job12'', Sleep 60,
        GetJobStatus ''job8'', GetJobStatus ''job12''])
   \<and> filter not_done descriptors3 = [descriptors3 ! 1, descriptors3 ! 2]
   \<and> descriptors3 ! 0 \<in> set descriptors3
   \<and> map_of (descriptors3 ! 0) ''done'' = Some (PyBool True)
   \<and> descriptors3 ! 0 \<notin> set (take 2 (filter not_done descriptors3))"
proof -
  have e: "execute be_ok task0 1 descriptors3 ''ts'' [] =
     Some (Returned ()
       [CheckOutput ''aws --profile default configure get aws_access_key_id'',
        CheckOutput ''aws --profile default configure get aws_secret_access_key'',
        Now, Now, Now, Now, Now, Now,
        SubmitJob (job_spec task0 ''key'' ''key'' ''ts'' (descriptors3 ! 1)),
        Now, Now, Now,
        SubmitJob (job_spec task0 ''key'' ''key'' ''ts'' (descriptors3 ! 2)),
        Now, Now, Now, GetJobStatus ''job8'', GetJobStatus ''job12'', Sleep 60,
        GetJobStatus ''job8'', GetJobStatus ''job12''])"
    by code_simp
  have f: "filter not_done descriptors3 = [descriptors3 ! 1, descriptors3 ! 2]"
    by (simp add: descriptors3_def not_done_def)
  have d: "map_of (descriptors3 ! 0) ''done'' = Some (PyBool True)"
    "descriptors3 ! 0 \<in> set descriptors3"
    by (simp_all add: descriptors3_def)
  have "descriptors3 ! 0 \<in> set (take 2 (filter not_done descriptors3)) \<longrightarrow>
          map_of (descriptors3 ! 0) ''done'' = Some (PyBool True) \<longrightarrow> \<not> truthy (PyBool True)"
    using done_descriptors_never_submitted [of be_ok task0 1 "''key''" "''key''" "''ts''"
            descriptors3 "[]"]
    by blast
  with d have "descriptors3 ! 0 \<notin> set (take 2 (filter not_done descriptors3))" by simp
  with e f d show ?thesis by simp
qed

text \<open>
  C10. When \<open>test\<close> is true, a prepared list of more than two descriptors is cut to its
  first two before anything else is done with it, whatever \<open>max_runs\<close> is: the run is the
  run on the first two. So every submission of the run is for one of the first two
  descriptors (one that is not done), and the consolidation, if it is reached, is handed
  the first two.
\<close>

theorem test_run_truncates_to_two:
  assumes "test self" and "2 < length prepared"
  shows "run be self prepared w = run be self (take 2 prepared) w
         \<and> (\<forall>out. run be self prepared w = Some out \<longrightarrow>
               (\<exists>es a s ts n. trace_of out = w @ es
                  \<and> submitted es =
                      map (job_spec self a s ts) (take n (filter not_done (take 2 prepared)))
                  \<and> (combined es = [] \<or> combined es = [take 2 prepared])))"
proof (intro conjI allI impI)
  show "run be self prepared w = run be self (take 2 prepared) w"
    using assms by (simp add: run_def)
next
  fix out assume "run be self prepared w = Some out"
  from run_trace [OF this] assms
  show "\<exists>es a s ts n. trace_of out = w @ es
                  \<and> submitted es =
                      map (job_spec self a s ts) (take n (filter not_done (take 2 prepared)))
                  \<and> (combined es = [] \<or> combined es = [take 2 prepared])"
    by simp
qed

theorem test_run_truncates_to_two_witness:
  "test task0 \<and> 2 < length descriptors3
   \<and> run be_ok task0 descriptors3 [] = run be_ok task0 (take 2 descriptors3) []
   \<and> run be_ok task0 descriptors3 [] =
       Some (Returned ()
         [Now, CheckOutput ''nesta_prepare_batch batchable '',
          CheckOutput ''aws --profile default configure get aws_access_key_id'',
          CheckOutput ''aws --profile default configure get aws_secret_access_key'',
          Now, Now, Now, Now, Now, Now,
          SubmitJob (job_spec task0 ''key'' ''key'' ''key'' (descriptors3 ! 1)),
          Now, Now, Now, GetJobStatus ''job10'', Sleep 60, GetJobStatus ''job10'',
          Combine (take 2 descriptors3)])"
proof -
  have h: "test task0" "2 < length descriptors3"
    by (simp_all add: task0_def descriptors3_def)
  have e: "run be_ok task0 descriptors3 [] =
       Some (Returned ()
         [Now, CheckOutput ''nesta_prepare_batch batchable '',
          CheckOutput ''aws --profile default configure get aws_access_key_id'',
          CheckOutput ''aws --profile default configure get aws_secret_access_key'',
          Now, Now, Now, Now, Now, Now,
          SubmitJob (job_spec task0 ''key'' ''key'' ''key'' (descriptors3 ! 1)),
          Now, Now, Now, GetJobStatus ''job10'', Sleep 60, GetJobStatus ''job10'',
          Combine (take 2 descriptors3)])"
    by code_simp
  from test_run_truncates_to_two [OF h, of be_ok "[]"] h e show ?thesis by blast
qed

subsection \<open>The cap on the number of runs\<close>

lemma submit_jobs_at_most:
  assumes "max_runs self = Some N"
  shows "\<exists>es. trace_of (submit_jobs be self T a s ts i ps ids w) = w @ es
           \<and> length (submitted es) \<le> nat (N - int i)"
proof (induction ps arbitrary: i ids w)
  case Nil
  show ?case by (intro exI [of _ "[]"]) simp
next
  case (Cons p ps)
  let ?w1 = "w @ [Now, Now, Now]"
  let ?spec = "job_spec self a s ts p"
  show ?case
  proof (cases "time_at be (w @ [Now, Now]) < T")
    case False
    then show ?thesis
      by (intro exI [of _ "[Now, Now, Now, HardTerminate ids
                ''Impending worker timeout, so killing live tasks'']"])
         (simp add: assert_timeout_def hard_terminate_def)
  next
    case True
    then have t: "assert_timeout be T ids w = Returned () ?w1" by (rule assert_timeout_ok)
    show ?thesis
    proof (cases "map_of p ''done''")
      case None
      with t show ?thesis by (intro exI [of _ "[Now, Now, Now]"]) simp
    next
      case (Some d)
      show ?thesis
      proof (cases "truthy d")
        case d: True
        from Cons.IH [of "Suc i" ids ?w1]
        obtain es where
          "trace_of (submit_jobs be self T a s ts (Suc i) ps ids ?w1) = ?w1 @ es"
          "length (submitted es) \<le> nat (N - int (Suc i))"
          by blast
        with t Some d show ?thesis
          by (intro exI [of _ "[Now, Now, Now] @ es"]) (simp add: submitted_append)
      next
        case d: False
        show ?thesis
        proof (cases "N \<le> int i")
          case True
          with t Some d assms show ?thesis
            by (intro exI [of _ "[Now, Now, Now]"]) simp
        next
          case mr: False
          show ?thesis
          proof (cases "submit_job be ?w1 ?spec")
            case (Raises e)
            with t Some d mr assms show ?thesis
              by (intro exI [of _ "[Now, Now, Now, SubmitJob ?spec]"]) (simp add: Let_def)
          next
            case (Replies job)
            from Cons.IH [of "Suc i" "ids @ [job]" "?w1 @ [SubmitJob ?spec]"]
            obtain es where
              "trace_of (submit_jobs be self T a s ts (Suc i) ps (ids @ [job])
                 (?w1 @ [SubmitJob ?spec])) = (?w1 @ [SubmitJob ?spec]) @ es"
              "length (submitted es) \<le> nat (N - int (Suc i))"
              by blast
            with t Some d mr assms Replies show ?thesis
              by (intro exI [of _ "[Now, Now, Now, SubmitJob ?spec] @ es"])
                 (simp add: Let_def submitted_append)
          qed
        qed
      qed
    qed
  qed
qed

text \<open>
  What the cap cuts is the list: when every descriptor has a \<open>done\<close>, the deadline is
  not reached and the service accepts every submission, the jobs submitted are those of
  the descriptors that are not done among the first \<open>N\<close> of the list.
\<close>

lemma submit_jobs_positions:
  assumes mr: "max_runs self = Some N"
    and clock: "\<forall>h. time_at be h < T"
    and service: "\<forall>h spec. \<exists>job. submit_job be h spec = Replies job"
  shows "list_all (\<lambda>p. map_of p ''done'' \<noteq> None) ps \<Longrightarrow>
         \<exists>es ids'. submit_jobs be self T a s ts i ps ids w = Returned ids' (w @ es)
           \<and> submitted es
               = map (job_spec self a s ts) (filter not_done (take (nat (N - int i)) ps))
           \<and> terminate_calls es = []"
proof (induction ps arbitrary: i ids w)
  case Nil
  show ?case by (intro exI [of _ "[]"] exI [of _ ids]) (simp add: terminate_calls_def)
next
  case (Cons p ps)
  let ?w1 = "w @ [Now, Now, Now]"
  let ?spec = "job_spec self a s ts p"
  from clock have t: "assert_timeout be T ids w = Returned () ?w1"
    by (simp add: assert_timeout_ok)
  from Cons.prems obtain d where d: "map_of p ''done'' = Some d" by auto
  from Cons.prems have rest: "list_all (\<lambda>p. map_of p ''done'' \<noteq> None) ps" by simp
  show ?case
  proof (cases "truthy d")
    case True
    with d have nd: "\<not> not_done p" by (simp add: not_done_def)
    from Cons.IH [OF rest, of "Suc i" ids ?w1]
    obtain es ids' where
      "submit_jobs be self T a s ts (Suc i) ps ids ?w1 = Returned ids' (?w1 @ es)"
      "submitted es
         = map (job_spec self a s ts) (filter not_done (take (nat (N - int (Suc i))) ps))"
      "terminate_calls es = []"
      by blast
    note tail = this
    have "filter not_done (take (nat (N - int i)) (p # ps))
            = filter not_done (take (nat (N - int (Suc i))) ps)"
    proof (cases "N \<le> int i")
      case True
      then show ?thesis by simp
    next
      case False
      then have "nat (N - int i) = Suc (nat (N - int (Suc i)))" by simp
      with nd show ?thesis by simp
    qed
    with t d True tail show ?thesis
      by (intro exI [of _ "[Now, Now, Now] @ es"] exI [of _ ids'])
         (simp add: submitted_append terminate_calls_def)
  next
    case False
    with d have nd: "not_done p" by (simp add: not_done_def)
    show ?thesis
    proof (cases "N \<le> int i")
      case True
      with t d False mr show ?thesis
        by (intro exI [of _ "[Now, Now, Now]"] exI [of _ ids]) (simp add: terminate_calls_def)
    next
      case cap: False
      then have n: "nat (N - int i) = Suc (nat (N - int (Suc i)))" by simp
      from service obtain job where job: "submit_job be ?w1 ?spec = Replies job" by blast
      from Cons.IH [OF rest, of "Suc i" "ids @ [job]" "?w1 @ [SubmitJob ?spec]"]
      obtain es ids' where
        "submit_jobs be self T a s ts (Suc i) ps (ids @ [job]) (?w1 @ [SubmitJob ?spec])
           = Returned ids' ((?w1 @ [SubmitJob ?spec]) @ es)"
        "submitted es
           = map (job_spec self a s ts) (filter not_done (take (nat (N - int (Suc i))) ps))"
        "terminate_calls es = []"
        by blast
      with t d False nd mr cap job show ?thesis
        unfolding n
        by (intro exI [of _ "[Now, Now, Now, SubmitJob ?spec] @ es"] exI [of _ ids'])
           (simp add: Let_def submitted_append terminate_calls_def)
    qed
  qed
qed

text \<open>
  C2. The claim does not hold of the code. The cap is compared with the position in the
  list, not with the number of submissions: with \<open>max_runs = 1\<close> and three descriptors of
  which the first is done and the other two are not, the loop skips the first, breaks at
  the second, and the run submits nothing, where one job was to be submitted.
\<close>

theorem max_runs_counts_list_positions:
  "max_runs (task0\<lparr>max_runs := Some 1, test := False\<rparr>) = Some 1
   \<and> length descriptors3 = 3
   \<and> filter not_done descriptors3 = drop 1 descriptors3
   \<and> run be_ok (task0\<lparr>max_runs := Some 1, test := False\<rparr>) descriptors3 [] =
       Some (Returned ()
         [Now, CheckOutput ''nesta_prepare_batch batchable '',
          CheckOutput ''aws --profile default configure get aws_access_key_id'',
          CheckOutput ''aws --profile default configure get aws_secret_access_key'',
          Now, Now, Now, Now, Now, Now, Combine descriptors3])
   \<and> submitted
         [Now, CheckOutput ''nesta_prepare_batch batchable '',
          CheckOutput ''aws --profile default configure get aws_access_key_id'',
          CheckOutput ''aws --profile default configure get aws_secret_access_key'',
          Now, Now, Now, Now, Now, Now, Combine descriptors3] = []"
  by code_simp

subsection \<open>A run in which every job succeeds\<close>

lemma pass_replies_nth:
  "k < length js \<Longrightarrow>
   pass_replies be w js ! k = get_job_status be (w @ map GetJobStatus (take k js)) (js ! k)"
proof (induction js arbitrary: w k)
  case Nil
  then show ?case by simp
next
  case (Cons j js)
  show ?case
  proof (cases k)
    case 0
    then show ?thesis by simp
  next
    case (Suc k')
    with Cons.prems have "k' < length js" by simp
    from Cons.IH [OF this, of "w @ [GetJobStatus j]"] Suc show ?thesis by simp
  qed
qed

lemma finished_iff:
  "j \<in> finished js rs \<longleftrightarrow>
     (\<exists>k. k < length js \<and> k < length rs \<and> js ! k = j
          \<and> (rs ! k = Replies SUCCEEDED \<or> rs ! k = Replies FAILED))"
  unfolding finished_zip by (auto simp: in_set_zip image_iff)

lemma assert_success_no_failures:
  assumes "stats_get st FAILED = 0" and "0 < stats_total st" and "success_rate self \<le> 1"
  shows "assert_success self ids st w = Returned () w"
  using assms by (simp add: assert_success_def Let_def threshold_nonneg)

lemma monitor_cycle_no_failures:
  fixes be :: backend and w :: world and ids :: "job_id list"
  defines "rs \<equiv> pass_replies be (w @ [Now, Now, Now]) ids"
  assumes deadline: "time_at be (w @ [Now, Now]) < T"
    and replies: "list_all (\<lambda>r. \<exists>s. r = Replies s) rs"
    and nofail: "count_list rs (Replies FAILED) = 0"
    and rate: "success_rate self \<le> 1"
  shows "monitor_cycle be self T ids d w =
           Returned (d \<union> finished ids rs)
             (w @ [Now, Now, Now] @ map GetJobStatus ids @ [Sleep (poll_time self)])"
proof -
  have t: "assert_timeout be T ids w = Returned () (w @ [Now, Now, Now])"
    using deadline by (rule assert_timeout_ok)
  have p: "poll_jobs be ids [] d (w @ [Now, Now, Now]) =
             Returned (tally [] rs, d \<union> finished ids rs)
               (w @ [Now, Now, Now] @ map GetJobStatus ids)"
    using poll_jobs_eq [OF replies [unfolded rs_def]] by (simp add: rs_def)
  show ?thesis
  proof (cases "tally [] rs = []")
    case True
    then show ?thesis by (simp add: monitor_cycle_def t p)
  next
    case False
    have pos: "list_all (\<lambda>(k, n). 0 < n) (tally [] rs)" by (rule tally_pos) simp
    have "0 < stats_total (tally [] rs)" using pos False by (rule stats_pos_total)
    moreover have "stats_get (tally [] rs) FAILED = 0" by (simp add: stats_get_tally nofail)
    ultimately have "assert_success self ids (tally [] rs)
        (w @ [Now, Now, Now] @ map GetJobStatus ids)
      = Returned () (w @ [Now, Now, Now] @ map GetJobStatus ids)"
      using rate by (intro assert_success_no_failures)
    with False show ?thesis by (simp add: monitor_cycle_def t p)
  qed
qed

lemma last_poll_all_succeeded:
  "(\<forall>es j. j \<in> set js \<longrightarrow> get_job_status be (w @ es) j = Replies SUCCEEDED) \<Longrightarrow>
   last_poll be js st u w =
     Returned (tally st (map (\<lambda>j. Replies SUCCEEDED) js), u) (w @ map GetJobStatus js)"
proof (induction js arbitrary: st w)
  case Nil
  show ?case by simp
next
  case (Cons j js)
  from Cons.prems [rule_format, of j "[]"] have s: "get_job_status be w j = Replies SUCCEEDED"
    by simp
  have "\<forall>es j'. j' \<in> set js \<longrightarrow>
          get_job_status be ((w @ [GetJobStatus j]) @ es) j' = Replies SUCCEEDED"
    using Cons.prems by simp
  from Cons.IH [OF this, of "stats_incr st SUCCEEDED"] s show ?case by simp
qed

lemma last_check_all_succeeded:
  assumes "\<forall>es j. j \<in> set js \<longrightarrow> get_job_status be (w @ es) j = Replies SUCCEEDED"
    and "success_rate self \<le> 1"
  shows "last_check be self js w = Returned () (w @ map GetJobStatus js)"
proof -
  let ?st = "tally [] (map (\<lambda>j. Replies SUCCEEDED) js)"
  have p: "last_poll be js [] False w = Returned (?st, False) (w @ map GetJobStatus js)"
    using assms(1) by (rule last_poll_all_succeeded)
  show ?thesis
  proof (cases "?st = []")
    case True
    then show ?thesis by (simp add: last_check_def p)
  next
    case False
    have pos: "list_all (\<lambda>(k, n). 0 < n) ?st" by (rule tally_pos) simp
    have "0 < stats_total ?st" using pos False by (rule stats_pos_total)
    moreover have "count_list (map (\<lambda>j. Replies SUCCEEDED) js) (Replies FAILED) = 0"
      by (induction js) simp_all
    then have "stats_get ?st FAILED = 0" by (simp add: stats_get_tally)
    ultimately have "assert_success self js ?st (w @ map GetJobStatus js)
        = Returned () (w @ map GetJobStatus js)"
      using assms(2) by (intro assert_success_no_failures)
    with False show ?thesis by (simp add: last_check_def p)
  qed
qed


lemma cycle_towards_success:
  fixes be :: backend and w :: world and ids :: "job_id list" and c :: "job_id \<Rightarrow> nat"
  assumes status: "\<forall>es j. j \<in> set ids \<longrightarrow>
             (\<exists>st. get_job_status be (w @ es) j = Replies st \<and> st \<noteq> FAILED
                   \<and> ((st = SUCCEEDED) = (c j \<le> length es)))"
    and reach: "\<forall>j. j \<in> set ids \<longrightarrow> c j \<le> K"
    and deadline: "\<forall>es. length es < K + length ids + 3 \<longrightarrow> time_at be (w @ es) < T"
    and rate: "success_rate self \<le> 1"
    and L: "length es0 \<le> K + length ids"
  shows "\<exists>d'. monitor_cycle be self T ids d (w @ es0) =
                Returned d'
                  (w @ es0 @ [Now, Now, Now] @ map GetJobStatus ids @ [Sleep (poll_time self)])
           \<and> d \<subseteq> d' \<and> d' \<subseteq> d \<union> set ids
           \<and> (\<forall>j. j \<in> d' \<longrightarrow> j \<notin> d \<longrightarrow> c j \<le> length es0 + 3 + length ids)
           \<and> (K \<le> length es0 + 3 \<longrightarrow> set ids \<subseteq> d')"
proof -
  define rs where "rs = pass_replies be ((w @ es0) @ [Now, Now, Now]) ids"
  have A: "\<exists>st. rs ! k = Replies st \<and> st \<noteq> FAILED
              \<and> ((st = SUCCEEDED) = (c (ids ! k) \<le> length es0 + 3 + k))"
    if "k < length ids" for k
  proof -
    have "rs ! k = get_job_status be
            (w @ (es0 @ [Now, Now, Now] @ map GetJobStatus (take k ids))) (ids ! k)"
      using pass_replies_nth [OF that, of be "(w @ es0) @ [Now, Now, Now]"]
      by (simp add: rs_def)
    moreover have "ids ! k \<in> set ids" using that by simp
    ultimately show ?thesis
      using status [rule_format, of "ids ! k" "es0 @ [Now, Now, Now] @ map GetJobStatus (take k ids)"]
        that
      by (auto simp: min_def numeral_3_eq_3)
  qed
  have len: "length rs = length ids" by (simp add: rs_def)
  have replies: "list_all (\<lambda>r. \<exists>s. r = Replies s) rs"
    unfolding list_all_length len using A by blast
  have nofail: "count_list rs (Replies FAILED) = 0"
  proof -
    have "Replies FAILED \<notin> set rs"
    proof
      assume "Replies FAILED \<in> set rs"
      then obtain k where "k < length rs" "rs ! k = Replies FAILED"
        by (auto simp: in_set_conv_nth)
      with A [of k] len show False by auto
    qed
    then show ?thesis by (simp add: count_list_0_iff)
  qed
  have t: "time_at be ((w @ es0) @ [Now, Now]) < T"
    using deadline [rule_format, of "es0 @ [Now, Now]"] L by simp
  have c: "monitor_cycle be self T ids d (w @ es0) =
             Returned (d \<union> finished ids rs)
               ((w @ es0) @ [Now, Now, Now] @ map GetJobStatus ids @ [Sleep (poll_time self)])"
    using monitor_cycle_no_failures [OF t replies [unfolded rs_def] nofail [unfolded rs_def] rate]
    by (simp add: rs_def)
  have f1: "finished ids rs \<subseteq> set ids"
    by (auto simp: finished_iff)
  have f2: "c j \<le> length es0 + 3 + length ids" if "j \<in> finished ids rs" for j
  proof -
    from that obtain k where k: "k < length ids" "ids ! k = j"
      "rs ! k = Replies SUCCEEDED \<or> rs ! k = Replies FAILED"
      by (auto simp: finished_iff)
    with A [of k] have "c j \<le> length es0 + 3 + k" by auto
    with k show ?thesis by simp
  qed
  have f3: "set ids \<subseteq> finished ids rs" if "K \<le> length es0 + 3"
  proof
    fix j assume "j \<in> set ids"
    then obtain k where k: "k < length ids" "ids ! k = j" by (auto simp: in_set_conv_nth)
    from reach \<open>j \<in> set ids\<close> have "c j \<le> K" by blast
    with that k have "c (ids ! k) \<le> length es0 + 3 + k" by simp
    with A [of k] k have "rs ! k = Replies SUCCEEDED" by auto
    with k len show "j \<in> finished ids rs" by (auto simp: finished_iff)
  qed
  show ?thesis
    using c f1 f2 f3 by (intro exI [of _ "d \<union> finished ids rs"]) auto
qed


lemma loop_completes:
  fixes be :: backend and w :: world and ids :: "job_id list" and c :: "job_id \<Rightarrow> nat"
  assumes status: "\<forall>es j. j \<in> set ids \<longrightarrow>
             (\<exists>st. get_job_status be (w @ es) j = Replies st \<and> st \<noteq> FAILED
                   \<and> ((st = SUCCEEDED) = (c j \<le> length es)))"
    and reach: "\<forall>j. j \<in> set ids \<longrightarrow> c j \<le> K"
    and deadline: "\<forall>es. length es < K + length ids + 3 \<longrightarrow> time_at be (w @ es) < T"
    and rate: "success_rate self \<le> 1"
    and dist: "distinct ids"
  shows "d \<subseteq> set ids \<Longrightarrow> (\<forall>j. j \<in> d \<longrightarrow> c j \<le> length es0) \<Longrightarrow>
         d = set ids \<or> length es0 \<le> K + length ids \<Longrightarrow> terminate_calls es0 = [] \<Longrightarrow>
         \<exists>es1. monitor_loop be self T ids d (w @ es0) = Some (Returned (set ids) (w @ es1))
            \<and> (\<forall>j. j \<in> set ids \<longrightarrow> c j \<le> length es1) \<and> terminate_calls es1 = []"
proof (induction "K + length ids + 1 - length es0" arbitrary: d es0 rule: less_induct)
  case less
  show ?case
  proof (cases "d = set ids")
    case True
    with dist have "card d = length ids" by (simp add: distinct_card)
    then have "monitor_loop be self T ids d (w @ es0) = Some (Returned d (w @ es0))"
      by (subst monitor_loop.simps) simp
    with True less.prems show ?thesis by (intro exI [of _ es0]) simp
  next
    case False
    with less.prems have L: "length es0 \<le> K + length ids" by simp
    from False less.prems(1) have "d \<subset> set ids" by blast
    then have "card d < card (set ids)" by (intro psubset_card_mono) simp_all
    with dist have pending: "0 < int (length ids) - int (card d)"
      by (simp add: distinct_card)
    let ?es' = "es0 @ [Now, Now, Now] @ map GetJobStatus ids @ [Sleep (poll_time self)]"
    from cycle_towards_success [OF status reach deadline rate L, of d]
    obtain d' where cyc: "monitor_cycle be self T ids d (w @ es0) = Returned d' (w @ ?es')"
      and sub: "d \<subseteq> d'" "d' \<subseteq> d \<union> set ids"
      and new: "\<forall>j. j \<in> d' \<longrightarrow> j \<notin> d \<longrightarrow> c j \<le> length es0 + 3 + length ids"
      and all: "K \<le> length es0 + 3 \<longrightarrow> set ids \<subseteq> d'"
      by blast
    have i1: "d' \<subseteq> set ids" using sub less.prems(1) by blast
    have i2: "\<forall>j. j \<in> d' \<longrightarrow> c j \<le> length ?es'"
    proof (intro allI impI)
      fix j assume j: "j \<in> d'"
      show "c j \<le> length ?es'"
      proof (cases "j \<in> d")
        case True
        with less.prems(2) have "c j \<le> length es0" by blast
        then show ?thesis by simp
      next
        case False
        with new j have "c j \<le> length es0 + 3 + length ids" by blast
        then show ?thesis by simp
      qed
    qed
    have i3: "d' = set ids \<or> length ?es' \<le> K + length ids"
    proof (cases "K \<le> length es0 + 3")
      case True
      with all i1 show ?thesis by blast
    next
      case False
      then show ?thesis by simp
    qed
    have i4: "terminate_calls ?es' = []"
      using less.prems(4) by (simp add: terminate_calls_append) (simp add: terminate_calls_def)
    have m: "K + length ids + 1 - length ?es' < K + length ids + 1 - length es0"
      using L by simp
    from less.hyps [OF m i1 i2 i3 i4]
    obtain es1 where
      "monitor_loop be self T ids d' (w @ ?es') = Some (Returned (set ids) (w @ es1))"
      "\<forall>j. j \<in> set ids \<longrightarrow> c j \<le> length es1" "terminate_calls es1 = []"
      by blast
    moreover have "monitor_loop be self T ids d (w @ es0) =
                     monitor_loop be self T ids d' (w @ ?es')"
      using pending cyc by (subst monitor_loop.simps) simp
    ultimately show ?thesis by (intro exI [of _ es1]) simp
  qed
qed


text \<open>
  C5, as the code has it. Let the handles be distinct and \<open>success_rate\<close> at most one.
  Let every status query be answered, never with \<open>FAILED\<close>, and let each job \<open>j\<close> be
  reported \<open>SUCCEEDED\<close> exactly from \<open>c j\<close> calls after the start of the monitoring on,
  which is at most \<open>K\<close> calls for every job. If the clock stays before the deadline for
  one more polling cycle after that (\<open>K\<close> calls, and the three readings and the queries
  of a cycle), the monitoring returns normally and issues no termination, single or bulk.
\<close>

theorem all_succeeded_run_completes:
  fixes be :: backend and w :: world and job_ids :: "job_id list" and c :: "job_id \<Rightarrow> nat"
  assumes "distinct job_ids"
    and "success_rate self \<le> 1"
    and "\<forall>es j. j \<in> set job_ids \<longrightarrow>
           (\<exists>st. get_job_status be (w @ es) j = Replies st \<and> st \<noteq> FAILED
                 \<and> ((st = SUCCEEDED) = (c j \<le> length es)))"
    and "\<forall>j. j \<in> set job_ids \<longrightarrow> c j \<le> K"
    and "\<forall>es. length es < K + length job_ids + 3 \<longrightarrow> time_at be (w @ es) < TIMEOUT"
  shows "\<exists>es. monitor_batch_jobs be self TIMEOUT job_ids w = Some (Returned () (w @ es))
           \<and> terminate_calls es = []"
proof -
  have i3: "{} = set job_ids \<or> length ([] :: event list) \<le> K + length job_ids" by simp
  from loop_completes [OF assms(3) assms(4) assms(5) assms(2) assms(1), of "{}" "[]"] i3
  obtain es1 where
    l: "monitor_loop be self TIMEOUT job_ids {} w = Some (Returned (set job_ids) (w @ es1))"
    and c: "\<forall>j. j \<in> set job_ids \<longrightarrow> c j \<le> length es1"
    and t: "terminate_calls es1 = []"
    by (auto simp: terminate_calls_def)
  have "\<forall>es j. j \<in> set job_ids \<longrightarrow>
          get_job_status be ((w @ es1) @ es) j = Replies SUCCEEDED"
  proof (intro allI impI)
    fix es j assume j: "j \<in> set job_ids"
    from assms(3) [rule_format, OF j, of "es1 @ es"] c j
    show "get_job_status be ((w @ es1) @ es) j = Replies SUCCEEDED" by auto
  qed
  from last_check_all_succeeded [OF this assms(2)]
  have "last_check be self job_ids (w @ es1) =
          Returned () (w @ es1 @ map GetJobStatus job_ids)"
    by simp
  with l have "monitor_batch_jobs be self TIMEOUT job_ids w =
                 Some (Returned () (w @ es1 @ map GetJobStatus job_ids))"
    by (simp add: monitor_batch_jobs_def)
  moreover have "terminate_calls (es1 @ map GetJobStatus job_ids) = []"
    using t by (simp add: terminate_calls_append)
  ultimately show ?thesis by blast
qed

theorem all_succeeded_run_completes_witness:
  "distinct [''a'', ''b''] \<and> success_rate task0 \<le> 1
   \<and> get_job_status be_slow [Now, Now, Now] ''a'' = Replies RUNNING
   \<and> monitor_batch_jobs be_slow task0 13 [''a'', ''b''] [] =
       Some (Returned ()
         [Now, Now, Now, GetJobStatus ''a'', GetJobStatus ''b'', Sleep 60,
          Now, Now, Now, GetJobStatus ''a'', GetJobStatus ''b'', Sleep 60,
          GetJobStatus ''a'', GetJobStatus ''b''])
   \<and> terminate_calls
         [Now, Now, Now, GetJobStatus ''a'', GetJobStatus ''b'', Sleep 60,
          Now, Now, Now, GetJobStatus ''a'', GetJobStatus ''b'', Sleep 60,
          GetJobStatus ''a'', GetJobStatus ''b''] = []"
proof -
  have h1: "distinct [''a'', ''b'']" "success_rate task0 \<le> 1"
    by (simp_all add: task0_def)
  have h2: "\<forall>es j. j \<in> set [''a'', ''b''] \<longrightarrow>
           (\<exists>st. get_job_status be_slow ([] @ es) j = Replies st \<and> st \<noteq> FAILED
                 \<and> ((st = SUCCEEDED) = ((\<lambda>j. 8) j \<le> length es)))"
    by (simp add: be_slow_def not_less)
  have h3: "\<forall>j. j \<in> set [''a'', ''b''] \<longrightarrow> (\<lambda>j. 8) j \<le> (8 :: nat)" by simp
  have h4: "\<forall>es. length es < 8 + length [''a'', ''b''] + 3 \<longrightarrow>
              time_at be_slow ([] @ es) < 13"
    by (simp add: be_slow_def)
  have r: "get_job_status be_slow [Now, Now, Now] ''a'' = Replies RUNNING"
    by (simp add: be_slow_def)
  have e: "monitor_batch_jobs be_slow task0 13 [''a'', ''b''] [] =
       Some (Returned ()
         [Now, Now, Now, GetJobStatus ''a'', GetJobStatus ''b'', Sleep 60,
          Now, Now, Now, GetJobStatus ''a'', GetJobStatus ''b'', Sleep 60,
          GetJobStatus ''a'', GetJobStatus ''b''])"
    by code_simp
  from all_succeeded_run_completes [OF h1 h2 h3 h4]
  obtain es where "monitor_batch_jobs be_slow task0 13 [''a'', ''b''] [] =
      Some (Returned () ([] @ es))" and t: "terminate_calls es = []"
    by blast
  with e have "terminate_calls
         [Now, Now, Now, GetJobStatus ''a'', GetJobStatus ''b'', Sleep 60,
          Now, Now, Now, GetJobStatus ''a'', GetJobStatus ''b'', Sleep 60,
          GetJobStatus ''a'', GetJobStatus ''b''] = []"
    by simp
  with h1 r e show ?thesis by blast
qed

text \<open>
  C5, as the spec states it, fails: right after the first poll the clock reads 5, before
  the deadline 10, and the job has status \<open>SUCCEEDED\<close>; the loop sleeps, and the deadline
  check of the next cycle, made before the job is polled again, reads 60 and terminates
  all handles: the run does not complete.
\<close>

theorem succeeded_before_deadline_yet_terminated:
  "time_at be_late [Now, Now, Now, GetJobStatus ''a''] < 10
   \<and> get_job_status be_late [Now, Now, Now, GetJobStatus ''a''] ''a'' = Replies SUCCEEDED
   \<and> 0 \<le> success_rate task0 \<and> success_rate task0 \<le> 1
   \<and> monitor_batch_jobs be_late task0 10 [''a''] [] =
       Some (Raised (BatchJobException ''Impending worker timeout, so killing live tasks'')
         [Now, Now, Now, GetJobStatus ''a'', Sleep 60, Now, Now, Now,
          HardTerminate [''a''] ''Impending worker timeout, so killing live tasks''])"
  by code_simp

end
